theory Spec2Isabelle
  imports Main
begin

section \<open>Data model of index.js\<close>

text \<open>
  The server keeps one mutable object per room. Payload fields are modelled at the type
  the handlers use them at: ids, codes and usernames are strings, \<open>null\<close> and
  \<open>undefined\<close> are \<open>None\<close>, absent boolean flags are \<open>False\<close> (both are falsy in
  every test the code makes). Scores are JavaScript numbers that only ever receive integer
  increments, so they are \<open>int\<close>.
\<close>

datatype phase = LOBBY | VIEWING | WRITING | DISCUSSING | VOTING | RESULTS | MATCH_END

datatype role = Innocent | Impostor

record player =
  pid :: string
  username :: string
  score :: int
  role :: "role option"
  word :: "string option"
  vote :: "string option"
  isReady :: bool
  isOwner :: bool
  isOffline :: bool
  hasSkipped :: bool
  hasSkippedDiscussion :: bool

record art =
  innocent :: string
  impostor :: string
  theme :: string

text \<open>
  \<open>room.state\<close>. The field \<open>currentRound\<close> is absent until \<open>startGame\<close> or
  \<open>resetMatch\<close> stores 0 in it; the only reads before that are in broadcasts, so it
  starts at 0 here.
\<close>

record room_state =
  phase :: phase
  timer :: int
  currentRound :: nat
  totalRounds :: int
  turnIndex :: nat
  turnOrder :: "string list option"
  turn :: "(string \<times> string) option"
  winnerAwardSent :: bool
  matchArtCache :: "art list option"
  artPair :: "art option"

datatype winner = Innocents | ImpostorWins

text \<open>
  What the server sends. \<open>GameOver\<close> carries the winner, the impostor's display name and
  the image pair; its human-readable message is a function of the first two and is left
  out. \<open>Webhook\<close> is the POST that \<open>notifyVecbotWinner\<close> issues.
\<close>

datatype emit =
    GameStateUpdate phase int
  | PlayerListUpdate "(string \<times> bool) list"
  | PublicRoomsUpdate
  | TimerUpdate int
  | RoundInit string "role option" string
  | GameOver winner string "art option"
  | Kicked string
  | Webhook string

datatype callback = PhaseTimer | TurnTimer

text \<open>
  A room object, followed by the part of the runtime that belongs to it: \<open>intervals\<close> are
  the intervals created for this room that Node still has scheduled (handle and callback),
  \<open>nextHandle\<close> is the next handle \<open>setInterval\<close> returns, \<open>pending\<close> holds the
  loop counter of every \<open>startGame\<close> call suspended at its \<open>await\<close>, and \<open>emitted\<close>
  logs what has been sent through \<open>io\<close> and to the webhook on behalf of the room.
\<close>

record room =
  code :: string
  players :: "player list"
  ownerId :: string
  isPublic :: bool
  rounds :: int
  state :: room_state
  timerInterval :: "nat option"
  intervals :: "(nat \<times> callback) list"
  nextHandle :: nat
  pending :: "nat list"
  emitted :: "emit list"

datatype error = TypeError

text \<open>The random outcomes one call of \<open>nextRound\<close> consumes.\<close>

record random =
  roleShuffle :: "nat list"
  turnShuffle :: "nat list"
  emergencyArt :: art

section \<open>JavaScript helpers\<close>

text \<open>ASCII models of \<open>String.prototype.trim\<close>, \<open>toLowerCase\<close> and \<open>toUpperCase\<close>.\<close>

definition is_space :: "char \<Rightarrow> bool" where
  "is_space c = (c \<in> set [CHR '' '', CHR 0x09, CHR 0x0A, CHR 0x0B, CHR 0x0C, CHR 0x0D])"

definition trim :: "string \<Rightarrow> string" where
  "trim s = rev (dropWhile is_space (rev (dropWhile is_space s)))"

definition lower_char :: "char \<Rightarrow> char" where
  "lower_char c = (let n = (of_char c :: nat) in if 65 \<le> n \<and> n \<le> 90 then char_of (n + 32) else c)"

definition upper_char :: "char \<Rightarrow> char" where
  "upper_char c = (let n = (of_char c :: nat) in if 97 \<le> n \<and> n \<le> 122 then char_of (n - 32) else c)"

definition toLowerCase :: "string \<Rightarrow> string" where
  "toLowerCase s = map lower_char s"

definition toUpperCase :: "string \<Rightarrow> string" where
  "toUpperCase s = map upper_char s"

text \<open>
  \<open>obj.field = v\<close> on the object that \<open>Array.prototype.find\<close> returned: the first
  element satisfying the predicate is updated in place.
\<close>

fun update_first :: "('a \<Rightarrow> bool) \<Rightarrow> ('a \<Rightarrow> 'a) \<Rightarrow> 'a list \<Rightarrow> 'a list" where
  "update_first P f [] = []"
| "update_first P f (x # xs) = (if P x then f x # xs else x # update_first P f xs)"

text \<open>\<open>arr[i]\<close>, which is \<open>undefined\<close> out of range.\<close>

definition nth_opt :: "'a list \<Rightarrow> nat \<Rightarrow> 'a option" where
  "nth_opt xs i = (if i < length xs then Some (xs ! i) else None)"

text \<open>
  \<open>[...xs].sort(() => Math.random() - 0.5)\<close> returns the elements in some order. The order
  is given as a list of positions; a list that is no permutation of the positions is read
  as the identity.
\<close>

definition is_permutation :: "nat list \<Rightarrow> nat \<Rightarrow> bool" where
  "is_permutation perm n = (length perm = n \<and> distinct perm \<and> list_all (\<lambda>i. i < n) perm)"

definition shuffled :: "nat list \<Rightarrow> nat \<Rightarrow> nat list" where
  "shuffled perm n = (if is_permutation perm n then perm else [0..<n])"

text \<open>
  The property names every object literal inherits from \<open>Object.prototype\<close>. For such a
  key \<open>k\<close>, \<open>votes[k]\<close> is a function or an object even before anything was stored.
\<close>

definition object_prototype_keys :: "string list" where
  "object_prototype_keys =
     [''constructor'', ''hasOwnProperty'', ''isPrototypeOf'', ''propertyIsEnumerable'',
      ''toLocaleString'', ''toString'', ''valueOf'', ''__defineGetter__'',
      ''__defineSetter__'', ''__lookupGetter__'', ''__lookupSetter__'', ''__proto__'']"

section \<open>Broadcasts and the timer\<close>

definition emit :: "emit \<Rightarrow> room \<Rightarrow> room" where
  "emit x r = r\<lparr>emitted := emitted r @ [x]\<rparr>"

definition broadcastState :: "room \<Rightarrow> room" where
  "broadcastState r = emit (GameStateUpdate (phase (state r)) (timer (state r))) r"

definition broadcastPlayerList :: "room \<Rightarrow> room" where
  "broadcastPlayerList r = emit (PlayerListUpdate (map (\<lambda>p. (pid p, role p \<noteq> None)) (players r))) r"

definition broadcastPublicRooms :: "room \<Rightarrow> room" where
  "broadcastPublicRooms r = emit PublicRoomsUpdate r"

definition clearInterval :: "nat \<Rightarrow> room \<Rightarrow> room" where
  "clearInterval h r = r\<lparr>intervals := filter (\<lambda>e. fst e \<noteq> h) (intervals r)\<rparr>"

text \<open>\<open>if (room.timerInterval) clearInterval(room.timerInterval)\<close>\<close>

definition clear_timer :: "room \<Rightarrow> room" where
  "clear_timer r = (case timerInterval r of None \<Rightarrow> r | Some h \<Rightarrow> clearInterval h r)"

text \<open>\<open>room.timerInterval = setInterval(callback, 1000)\<close>\<close>

definition setInterval :: "callback \<Rightarrow> room \<Rightarrow> room" where
  "setInterval cb r =
     r\<lparr>timerInterval := Some (nextHandle r),
       intervals := intervals r @ [(nextHandle r, cb)],
       nextHandle := Suc (nextHandle r)\<rparr>"

definition setPhase :: "room \<Rightarrow> phase \<Rightarrow> int \<Rightarrow> room" where
  "setPhase r ph duration =
     (let r1 = r\<lparr>state := (state r)\<lparr>phase := ph, timer := duration\<rparr>\<rparr>;
          r2 = clear_timer r1;
          r3 = broadcastState r2;
          r4 = (if ph \<noteq> LOBBY then broadcastPublicRooms r3 else r3)
      in if duration > 0 then setInterval PhaseTimer r4 else r4)"

section \<open>Scoring\<close>

text \<open>
  \<open>notifyVecbotWinner\<close> returns before the request when the name is empty, otherwise it
  issues the POST at once (the \<open>await\<close> comes after \<open>fetch\<close> was called).
\<close>

definition notifyVecbotWinner :: "string \<Rightarrow> room \<Rightarrow> room" where
  "notifyVecbotWinner name r = (if name = [] then r else emit (Webhook name) r)"

definition maxScore :: "player list \<Rightarrow> int" where
  "maxScore ps = fold max (map score ps) (score (hd ps))"

definition awardMatchWinners :: "room \<Rightarrow> room" where
  "awardMatchWinners r =
     (if winnerAwardSent (state r) then r
      else if players r = [] then r
      else let winners = filter (\<lambda>p. score p = maxScore (players r)) (players r) in
        if winners = [] then r
        else fold (\<lambda>w. notifyVecbotWinner (trim (username w))) winners
               (r\<lparr>state := (state r)\<lparr>winnerAwardSent := True\<rparr>\<rparr>))"

text \<open>
  The tally of \<open>calculateResults\<close>: \<open>votes\<close>, \<open>maxVotes\<close> and \<open>votedPlayerId\<close>. A
  falsy vote (\<open>null\<close> or the empty string) is skipped. For an inherited key,
  \<open>(votes[k] || 0) + 1\<close> is a string, and a string that is no number never compares
  greater than \<open>maxVotes\<close>, so such a vote changes neither \<open>maxVotes\<close> nor
  \<open>votedPlayerId\<close>.
\<close>

type_synonym tally = "(string \<Rightarrow> nat) \<times> nat \<times> string option"

definition tally_step :: "player \<Rightarrow> tally \<Rightarrow> tally" where
  "tally_step p t =
     (case t of (votes, maxVotes, votedPlayerId) \<Rightarrow>
        (case vote p of
           None \<Rightarrow> t
         | Some v \<Rightarrow>
             if v = [] then t
             else if v \<in> set object_prototype_keys then t
             else let c = votes v + 1 in
               if c > maxVotes then (votes(v := c), c, Some v)
               else (votes(v := c), maxVotes, votedPlayerId)))"

definition tally_votes :: "player list \<Rightarrow> tally" where
  "tally_votes ps = fold tally_step ps (\<lambda>_. 0, 0, None)"

definition votedPlayerId :: "player list \<Rightarrow> string option" where
  "votedPlayerId ps = snd (snd (tally_votes ps))"

definition votedPlayer :: "player list \<Rightarrow> player option" where
  "votedPlayer ps =
     (case votedPlayerId ps of None \<Rightarrow> None | Some a \<Rightarrow> List.find (\<lambda>p. pid p = a) ps)"

definition the_impostor :: "player list \<Rightarrow> player option" where
  "the_impostor ps = List.find (\<lambda>p. role p = Some Impostor) ps"

definition impostorName :: "player list \<Rightarrow> string" where
  "impostorName ps = (case the_impostor ps of None \<Rightarrow> ''Unknown'' | Some i \<Rightarrow> username i)"

definition accused_is_impostor :: "player list \<Rightarrow> bool" where
  "accused_is_impostor ps =
     (case votedPlayer ps of None \<Rightarrow> False | Some a \<Rightarrow> role a = Some Impostor)"

definition calculateResults :: "room \<Rightarrow> room" where
  "calculateResults r =
     (let ps = players r;
          r1 = (if accused_is_impostor ps then
                  emit (GameOver Innocents (impostorName ps) (artPair (state r)))
                    (r\<lparr>players := map (\<lambda>p. case the_impostor ps of
                                               None \<Rightarrow> p
                                             | Some i \<Rightarrow> if vote p = Some (pid i)
                                                 then p\<lparr>score := score p + 20\<rparr> else p) ps\<rparr>)
                else
                  emit (GameOver ImpostorWins (impostorName ps) (artPair (state r)))
                    (r\<lparr>players := update_first (\<lambda>p. role p = Some Impostor)
                         (\<lambda>i. i\<lparr>score := score i + (30 + int (length ps) * 10)\<rparr>) ps\<rparr>))
      in setPhase (broadcastPlayerList r1) RESULTS 5)"

section \<open>Turns and rounds\<close>

definition next_turn :: "room \<Rightarrow> room" where
  "next_turn r = r\<lparr>state := (state r)\<lparr>turnIndex := Suc (turnIndex (state r))\<rparr>\<rparr>"

definition turns_left :: "room \<Rightarrow> nat" where
  "turns_left r =
     (case turnOrder (state r) of None \<Rightarrow> 0 | Some ord \<Rightarrow> Suc (length ord) - turnIndex (state r))"

text \<open>
  \<open>startTurn\<close> and \<open>advanceTurn\<close> call each other; \<open>next_turn\<close> is the increment that
  \<open>advanceTurn\<close> makes before it calls back. Reading \<open>turnOrder.length\<close> throws when
  \<open>turnOrder\<close> is \<open>null\<close>.
\<close>

function startTurn :: "room \<Rightarrow> error + room" where
  "startTurn r =
     (case turnOrder (state r) of
        None \<Rightarrow> Inl TypeError
      | Some ord \<Rightarrow>
          if turnIndex (state r) \<ge> length ord then
            (let r1 = setPhase r DISCUSSING 120;
                 r2 = r1\<lparr>players := map (\<lambda>p. p\<lparr>hasSkippedDiscussion := False\<rparr>) (players r1)\<rparr>
             in Inr (broadcastPlayerList r2))
          else
            (let currentWriterId = ord ! turnIndex (state r) in
             case List.find (\<lambda>p. pid p = currentWriterId) (players r) of
               None \<Rightarrow> startTurn (next_turn r)
             | Some currentWriter \<Rightarrow>
                 if isOffline currentWriter then startTurn (next_turn r)
                 else
                   (let r1 = r\<lparr>state := (state r)\<lparr>timer := 30,
                                   turn := Some (currentWriterId, username currentWriter)\<rparr>\<rparr>;
                        r2 = broadcastState r1;
                        r3 = clear_timer r2
                    in Inr (setInterval TurnTimer r3))))"
  by pat_completeness auto
termination
  by (relation "measure turns_left") (auto simp: turns_left_def next_turn_def)

definition advanceTurn :: "room \<Rightarrow> error + room" where
  "advanceTurn r = startTurn (next_turn r)"

definition resetMatch :: "room \<Rightarrow> room" where
  "resetMatch r =
     (let ps = filter (\<lambda>p. \<not> isOffline p) (players r);
          r1 = r\<lparr>players := map (\<lambda>p. p\<lparr>role := None, word := None, vote := None,
                                        isReady := False, score := 0, hasSkipped := False\<rparr>) ps\<rparr>;
          r2 = r1\<lparr>state := (state r1)\<lparr>turnOrder := None, turnIndex := 0, currentRound := 0,
                                       winnerAwardSent := False\<rparr>\<rparr>
      in broadcastPublicRooms (broadcastPlayerList (broadcastState r2)))"

definition startWritingPhase :: "nat list \<Rightarrow> room \<Rightarrow> error + room" where
  "startWritingPhase perm r =
     (let r1 = broadcastPublicRooms (r\<lparr>state := (state r)\<lparr>phase := WRITING\<rparr>\<rparr>);
          ids = map pid (players r1);
          r2 = r1\<lparr>state := (state r1)\<lparr>turnOrder := Some (map (\<lambda>i. ids ! i) (shuffled perm (length ids))),
                                       turnIndex := 0\<rparr>\<rparr>;
          r3 = r2\<lparr>players := map (\<lambda>p. p\<lparr>word := None\<rparr>) (players r2)\<rparr>
      in startTurn r3)"

text \<open>
  The loop \<open>for (i = 0; i < impostorCount; i++) if (shuffledPlayers[i]) ...\<close> of
  \<open>nextRound\<close>, on the positions of the first \<open>impostorCount\<close> shuffled players.
\<close>

definition assign_impostors :: "nat list \<Rightarrow> player list \<Rightarrow> player list" where
  "assign_impostors chosen ps = fold (\<lambda>i qs. qs[i := (qs ! i)\<lparr>role := Some Impostor\<rparr>]) chosen ps"

definition round_init :: "room \<Rightarrow> room" where
  "round_init r =
     fold (\<lambda>p. emit (RoundInit (pid p) (role p)
                      (case artPair (state r) of
                         None \<Rightarrow> []
                       | Some a \<Rightarrow> if role p = Some Impostor then impostor a else innocent a)))
       (players r) r"

definition nextRound :: "random \<Rightarrow> room \<Rightarrow> error + room" where
  "nextRound rnd r =
     (let r1 = broadcastPlayerList (r\<lparr>players := filter (\<lambda>p. \<not> isOffline p) (players r)\<rparr>) in
      if length (players r1) < 2 then Inr (resetMatch (setPhase r1 LOBBY 0))
      else
        let r2 = r1\<lparr>state := (state r1)\<lparr>currentRound := Suc (currentRound (state r1))\<rparr>\<rparr>;
            r3 = r2\<lparr>players := map (\<lambda>p. p\<lparr>role := None, word := None, vote := None,
                                          isReady := True\<rparr>) (players r2)\<rparr>;
            cached = (case matchArtCache (state r3) of
                        None \<Rightarrow> None
                      | Some cache \<Rightarrow> nth_opt cache (currentRound (state r3) - 1));
            artData = (case cached of None \<Rightarrow> emergencyArt rnd | Some a \<Rightarrow> a);
            r4 = r3\<lparr>state := (state r3)\<lparr>artPair := Some artData\<rparr>\<rparr>;
            impostorCount = (if length (players r4) \<ge> 8 then 2 else 1);
            shuffledPlayers = shuffled (roleShuffle rnd) (length (players r4));
            r5 = r4\<lparr>players := map (\<lambda>p. p\<lparr>role := Some Innocent\<rparr>) (players r4)\<rparr>;
            r6 = r5\<lparr>players := assign_impostors (take impostorCount shuffledPlayers) (players r5)\<rparr>;
            r7 = broadcastPlayerList (round_init r6)
        in startWritingPhase (turnShuffle rnd) r7)"

text \<open>
  \<open>startGame\<close> is asynchronous. \<open>startGame\<close> below is what runs up to the first
  \<open>await\<close>: the loop counter 0 is recorded in \<open>pending\<close>, or, when no round is
  configured, the loop is skipped and \<open>nextRound\<close> runs at once. \<open>startGame_resume\<close>
  is the continuation of the \<open>k\<close>-th suspended call once \<open>fetchArtFromMet\<close> has
  delivered \<open>a\<close> (it always delivers: it falls back internally); the \<open>push\<close> sits in
  a \<open>try\<close> block, so a missing cache is survived.
\<close>

definition startGame :: "random \<Rightarrow> room \<Rightarrow> error + room" where
  "startGame rnd r =
     (let r1 = r\<lparr>state := (state r)\<lparr>currentRound := 0,
                                     totalRounds := (if rounds r = 0 then 5 else rounds r),
                                     winnerAwardSent := False,
                                     matchArtCache := Some []\<rparr>\<rparr>
      in if 0 < totalRounds (state r1) then Inr (r1\<lparr>pending := pending r1 @ [0]\<rparr>)
         else nextRound rnd r1)"

definition startGame_resume :: "nat \<Rightarrow> art \<Rightarrow> random \<Rightarrow> room \<Rightarrow> error + room" where
  "startGame_resume k a rnd r =
     (if k \<ge> length (pending r) then Inr r
      else
        let r1 = (case matchArtCache (state r) of
                    None \<Rightarrow> r
                  | Some cache \<Rightarrow> r\<lparr>state := (state r)\<lparr>matchArtCache := Some (cache @ [a])\<rparr>\<rparr>);
            i = Suc (pending r ! k)
        in if int i < totalRounds (state r1) then Inr (r1\<lparr>pending := (pending r1)[k := i]\<rparr>)
           else nextRound rnd (r1\<lparr>pending := take k (pending r1) @ drop (Suc k) (pending r1)\<rparr>))"

definition handlePhaseTimeout :: "random \<Rightarrow> room \<Rightarrow> error + room" where
  "handlePhaseTimeout rnd r =
     (case phase (state r) of
        WRITING \<Rightarrow> advanceTurn r
      | DISCUSSING \<Rightarrow> Inr (setPhase r VOTING 30)
      | VOTING \<Rightarrow> Inr (calculateResults r)
      | RESULTS \<Rightarrow>
          if int (currentRound (state r)) < rounds r then nextRound rnd r
          else
            (let r1 = setPhase (awardMatchWinners r) MATCH_END 30
             in Inr (r1\<lparr>players := map (\<lambda>p. p\<lparr>hasSkipped := False\<rparr>) (players r1)\<rparr>))
      | MATCH_END \<Rightarrow> Inr (resetMatch (setPhase r LOBBY 0))
      | LOBBY \<Rightarrow> startGame rnd r
      | VIEWING \<Rightarrow> Inr r)"

text \<open>
  One firing of the interval with handle \<open>h\<close>. A cleared interval never fires. The
  callback that \<open>setPhase\<close> installs ends in \<open>handlePhaseTimeout\<close>, the one that
  \<open>startTurn\<close> installs in \<open>advanceTurn\<close>.
\<close>

definition tick :: "nat \<Rightarrow> random \<Rightarrow> room \<Rightarrow> error + room" where
  "tick h rnd r =
     (case map_of (intervals r) h of
        None \<Rightarrow> Inr r
      | Some cb \<Rightarrow>
          let r1 = r\<lparr>state := (state r)\<lparr>timer := timer (state r) - 1\<rparr>\<rparr> in
          if timer (state r1) \<le> 0 then
            (case cb of
               PhaseTimer \<Rightarrow> handlePhaseTimeout rnd (clear_timer r1)
             | TurnTimer \<Rightarrow> advanceTurn (clear_timer r1))
          else Inr (emit (TimerUpdate (timer (state r1))) r1))"

section \<open>Socket handlers\<close>

text \<open>
  The handlers below, down to \<open>admin_skip_phase\<close>, are the bodies that run once
  \<open>rooms[code]\<close> has produced the room object; \<open>sock\<close> is \<open>socket.id\<close>.
\<close>

definition truthy :: "string option \<Rightarrow> bool" where
  "truthy v = (case v of None \<Rightarrow> False | Some s \<Rightarrow> s \<noteq> [])"

definition activeOnlinePlayers :: "player list \<Rightarrow> player list" where
  "activeOnlinePlayers ps = filter (\<lambda>p. role p \<noteq> None \<and> \<not> isOffline p) ps"

definition currentWriter :: "room \<Rightarrow> string option" where
  "currentWriter r =
     (case turnOrder (state r) of None \<Rightarrow> None | Some ord \<Rightarrow> nth_opt ord (turnIndex (state r)))"

definition then_do :: "error + room \<Rightarrow> (room \<Rightarrow> room) \<Rightarrow> error + room" where
  "then_do x f = (case x of Inl e \<Rightarrow> Inl e | Inr r \<Rightarrow> Inr (f r))"

datatype err = InvalidCode | RoomFull | NameTaken | RoomNotFound

datatype reply = Error err | RoomJoined string string "player list" bool bool

definition new_player :: "string \<Rightarrow> string \<Rightarrow> player" where
  "new_player sock name =
     \<lparr>pid = sock, username = name, score = 0, role = None, word = None, vote = None,
      isReady = False, isOwner = False, isOffline = False, hasSkipped = False,
      hasSkippedDiscussion = False\<rparr>"

definition isTaken :: "string \<Rightarrow> player list \<Rightarrow> bool" where
  "isTaken name ps = list_ex (\<lambda>p. toLowerCase (username p) = toLowerCase (trim name)) ps"

text \<open>The branch \<open>if (room) { ... }\<close> of the \<open>join_room\<close> handler.\<close>

definition join_existing :: "string \<Rightarrow> string \<Rightarrow> room \<Rightarrow> room \<times> reply" where
  "join_existing sock name r =
     (if length (players r) \<ge> 12 then (r, Error RoomFull)
      else if isTaken name (players r) then (r, Error NameTaken)
      else
        let r1 = r\<lparr>players := players r @ [new_player sock name]\<rparr>
        in (broadcastState (broadcastPublicRooms (broadcastPlayerList r1)),
            RoomJoined (code r) name (players r1) False (isPublic r)))"

definition kick_player :: "string \<Rightarrow> string \<Rightarrow> room \<Rightarrow> error + room" where
  "kick_player sock targetId r =
     (if ownerId r \<noteq> sock then Inr r
      else if targetId = sock then Inr r
      else case List.find (\<lambda>p. pid p = targetId) (players r) of
        None \<Rightarrow> Inr r
      | Some targetPlayer \<Rightarrow>
          let r1 = emit (Kicked targetId) r;
              r2 = r1\<lparr>players := filter (\<lambda>p. pid p \<noteq> targetId) (players r1)\<rparr>
          in then_do
               (if phase (state r2) = WRITING \<and> currentWriter r2 = Some targetId
                then advanceTurn (clear_timer r2) else Inr r2)
               (\<lambda>r3. broadcastPublicRooms (broadcastPlayerList r3)))"

definition submit_word :: "string \<Rightarrow> string \<Rightarrow> room \<Rightarrow> error + room" where
  "submit_word sock w r =
     (if phase (state r) \<noteq> WRITING then Inr r
      else case turnOrder (state r) of
        None \<Rightarrow> Inl TypeError
      | Some ord \<Rightarrow>
          if nth_opt ord (turnIndex (state r)) \<noteq> Some sock then Inr r
          else case List.find (\<lambda>p. pid p = sock) (players r) of
            None \<Rightarrow> Inr r
          | Some player \<Rightarrow>
              advanceTurn (r\<lparr>players := update_first (\<lambda>p. pid p = sock)
                                          (\<lambda>p. p\<lparr>word := Some w\<rparr>) (players r)\<rparr>))"

text \<open>
  \<open>submit_vote\<close> assigns \<open>player.vote\<close> without testing what \<open>find\<close> returned;
  assigning a property of \<open>undefined\<close> throws.
\<close>

definition submit_vote :: "string \<Rightarrow> string option \<Rightarrow> room \<Rightarrow> error + room" where
  "submit_vote sock targetId r =
     (if phase (state r) = VOTING then
        (case List.find (\<lambda>p. pid p = sock) (players r) of
           None \<Rightarrow> Inl TypeError
         | Some player \<Rightarrow>
             let r1 = r\<lparr>players := update_first (\<lambda>p. pid p = sock)
                                      (\<lambda>p. p\<lparr>vote := targetId\<rparr>) (players r)\<rparr>;
                 active = activeOnlinePlayers (players r1)
             in if active \<noteq> [] \<and> list_all (\<lambda>p. truthy (vote p)) active
                then Inr (calculateResults r1)
                else if active = [] then Inr (calculateResults r1)
                else Inr r1)
      else Inr r)"

definition skip_discussion :: "string \<Rightarrow> room \<Rightarrow> error + room" where
  "skip_discussion sock r =
     (if phase (state r) = DISCUSSING then
        (case List.find (\<lambda>p. pid p = sock) (players r) of
           None \<Rightarrow> Inr r
         | Some player \<Rightarrow>
             if hasSkippedDiscussion player then Inr r
             else
               let r1 = r\<lparr>players := update_first (\<lambda>p. pid p = sock)
                                        (\<lambda>p. p\<lparr>hasSkippedDiscussion := True\<rparr>) (players r)\<rparr>;
                   active = activeOnlinePlayers (players r1);
                   r2 = broadcastPlayerList r1
               in if active \<noteq> [] \<and> list_all hasSkippedDiscussion active
                  then Inr (setPhase r2 VOTING 30)
                  else if active = [] then Inr (setPhase r2 VOTING 30)
                  else Inr r2)
      else Inr r)"

definition skip_match_end :: "string \<Rightarrow> room \<Rightarrow> error + room" where
  "skip_match_end sock r =
     (if phase (state r) = MATCH_END then
        (case List.find (\<lambda>p. pid p = sock) (players r) of
           None \<Rightarrow> Inr r
         | Some player \<Rightarrow>
             if hasSkipped player then Inr r
             else
               let r1 = r\<lparr>players := update_first (\<lambda>p. pid p = sock)
                                        (\<lambda>p. p\<lparr>hasSkipped := True\<rparr>) (players r)\<rparr>;
                   active = activeOnlinePlayers (players r1);
                   r2 = broadcastPlayerList r1
               in if active \<noteq> [] \<and> list_all hasSkipped active
                  then Inr (resetMatch (setPhase r2 LOBBY 0))
                  else if active = [] then Inr (resetMatch (setPhase r2 LOBBY 0))
                  else Inr r2)
      else Inr r)"

text \<open>The readiness test that \<open>toggle_ready\<close> and \<open>disconnect\<close> share.\<close>

definition allReady :: "room \<Rightarrow> bool" where
  "allReady r = (length (players r) \<ge> 2 \<and> list_all isReady (players r))"

definition recheck_ready :: "room \<Rightarrow> room" where
  "recheck_ready r =
     (if allReady r then setPhase r LOBBY 4
      else if timer (state r) > 0 then setPhase r LOBBY 0
      else r)"

definition toggle_ready :: "string \<Rightarrow> room \<Rightarrow> error + room" where
  "toggle_ready sock r =
     (if phase (state r) \<noteq> LOBBY then Inr r
      else case List.find (\<lambda>p. pid p = sock) (players r) of
        None \<Rightarrow> Inr r
      | Some player \<Rightarrow>
          let r1 = r\<lparr>players := update_first (\<lambda>p. pid p = sock)
                                   (\<lambda>p. p\<lparr>isReady := \<not> isReady p\<rparr>) (players r)\<rparr>
          in Inr (recheck_ready (broadcastPlayerList r1)))"

definition admin_password :: string where
  "admin_password = ''Obi4amkebap4etatanamaykami''"

definition admin_skip_phase :: "string \<Rightarrow> random \<Rightarrow> room \<Rightarrow> error + room" where
  "admin_skip_phase password rnd r =
     (if password \<noteq> admin_password then Inr r
      else
        let r1 = clear_timer r in
        if phase (state r1) = LOBBY then startGame rnd r1 else handlePhaseTimeout rnd r1)"

text \<open>
  The \<open>disconnect\<close> handler on the room that \<open>getMyRoom\<close> returned, up to the test
  whether anybody is still online; the registry part follows below.
\<close>

definition disconnect_room :: "string \<Rightarrow> room \<Rightarrow> error + room" where
  "disconnect_room sock r =
     (if phase (state r) = LOBBY then
        Inr (recheck_ready (r\<lparr>players := filter (\<lambda>p. pid p \<noteq> sock) (players r)\<rparr>))
      else
        let r1 = r\<lparr>players := update_first (\<lambda>p. pid p = sock)
                                 (\<lambda>p. p\<lparr>isOffline := True\<rparr>) (players r)\<rparr>
        in if phase (state r1) = WRITING \<and> currentWriter r1 = Some sock
           then advanceTurn (clear_timer r1) else Inr r1)"

definition onlinePlayers :: "room \<Rightarrow> player list" where
  "onlinePlayers r = filter (\<lambda>p. \<not> isOffline p) (players r)"

text \<open>
  The owner transfer. \<open>was_lobby\<close> tells whether the handler started in LOBBY: there the
  leaving player's object is no longer in the roster when its \<open>isOwner\<close> is cleared.
\<close>

definition transfer_owner :: "string \<Rightarrow> bool \<Rightarrow> room \<Rightarrow> room" where
  "transfer_owner sock was_lobby r =
     (if ownerId r = sock then
        (let r1 = r\<lparr>ownerId := pid (hd (onlinePlayers r))\<rparr>;
             r2 = r1\<lparr>players := update_first (\<lambda>p. \<not> isOffline p)
                                   (\<lambda>p. p\<lparr>isOwner := True\<rparr>) (players r1)\<rparr>
         in if was_lobby then r2
            else r2\<lparr>players := update_first (\<lambda>p. pid p = sock)
                                   (\<lambda>p. p\<lparr>isOwner := False\<rparr>) (players r2)\<rparr>)
      else r)"

definition disconnect_in :: "string \<Rightarrow> room \<Rightarrow> error + room" where
  "disconnect_in sock r =
     then_do (disconnect_room sock r)
       (\<lambda>r1. broadcastPublicRooms
          (if onlinePlayers r1 = [] then r1
           else broadcastPlayerList (transfer_owner sock (phase (state r) = LOBBY) r1)))"

section \<open>The room registry\<close>

type_synonym registry = "string \<rightharpoonup> room"

text \<open>
  \<open>create_room\<close>: \<open>c\<close> is what \<open>generateRoomCode()\<close> returned, \<open>rounds_parsed\<close> is
  \<open>parseInt(rounds)\<close> with \<open>None\<close> for \<open>NaN\<close>.
\<close>

definition new_room :: "string \<Rightarrow> string \<Rightarrow> string \<Rightarrow> bool \<Rightarrow> int option \<Rightarrow> room" where
  "new_room c sock name pub rounds_parsed =
     \<lparr>code = c,
      players = [(new_player sock name)\<lparr>isOwner := True\<rparr>],
      ownerId = sock,
      isPublic = pub,
      rounds = (case rounds_parsed of None \<Rightarrow> 5 | Some n \<Rightarrow> if n = 0 then 5 else n),
      state = \<lparr>phase = LOBBY, timer = 0, currentRound = 0, totalRounds = 0, turnIndex = 0,
               turnOrder = Some [], turn = None, winnerAwardSent = False,
               matchArtCache = None, artPair = None\<rparr>,
      timerInterval = None, intervals = [], nextHandle = 0, pending = [], emitted = []\<rparr>"

definition create_room ::
    "string \<Rightarrow> string \<Rightarrow> string \<Rightarrow> bool \<Rightarrow> int option \<Rightarrow> registry \<Rightarrow> registry \<times> reply" where
  "create_room c sock name pub rounds_parsed rooms =
     (let r = new_room c sock name pub rounds_parsed
      in (rooms(c \<mapsto> broadcastPublicRooms (broadcastPlayerList r)),
          RoomJoined c name (players r) True pub))"

definition join_room :: "string \<Rightarrow> string \<Rightarrow> string option \<Rightarrow> registry \<Rightarrow> registry \<times> reply" where
  "join_room sock name c rooms =
     (case c of
        None \<Rightarrow> (rooms, Error InvalidCode)
      | Some c0 \<Rightarrow>
          if c0 = [] then (rooms, Error InvalidCode)
          else case rooms (toUpperCase c0) of
            None \<Rightarrow> (rooms, Error RoomNotFound)
          | Some r \<Rightarrow>
              (case join_existing sock name r of
                 (r', rep) \<Rightarrow> (rooms(toUpperCase c0 \<mapsto> r'), rep)))"

text \<open>\<open>getMyRoom\<close>; \<open>keys\<close> is \<open>Object.keys(rooms)\<close> in its order.\<close>

definition getMyRoom :: "string list \<Rightarrow> registry \<Rightarrow> string \<Rightarrow> string option" where
  "getMyRoom keys rooms sock =
     List.find (\<lambda>c. case rooms c of
                      None \<Rightarrow> False
                    | Some r \<Rightarrow> List.find (\<lambda>p. pid p = sock) (players r) \<noteq> None) keys"

definition disconnect :: "string list \<Rightarrow> string \<Rightarrow> registry \<Rightarrow> error + registry" where
  "disconnect keys sock rooms =
     (case getMyRoom keys rooms sock of
        None \<Rightarrow> Inr rooms
      | Some c \<Rightarrow>
          (case rooms c of
             None \<Rightarrow> Inr rooms
           | Some r \<Rightarrow>
               (case disconnect_in sock r of
                  Inl e \<Rightarrow> Inl e
                | Inr r1 \<Rightarrow>
                    if onlinePlayers r1 = [] then Inr ((rooms(c \<mapsto> r1))(code r1 := None))
                    else Inr (rooms(c \<mapsto> r1)))))"

section \<open>Reachable states of a room object\<close>

text \<open>
  Everything that can happen to a room object after \<open>create_room\<close> made it: a handler
  runs on it, one of its intervals fires, or a suspended \<open>startGame\<close> call resumes.
  The events are not restricted to the ones the registry would still deliver, so a room
  that was deleted from the registry or replaced under its code, and whose intervals keep
  firing, is covered as well. A step that throws has no successor.
\<close>

datatype event =
    Join string string
  | KickPlayer string string
  | SubmitWord string string
  | SubmitVote string "string option"
  | SkipDiscussion string
  | SkipMatchEnd string
  | ToggleReady string
  | StartGame random
  | AdminSkipPhase string random
  | Disconnect string
  | Tick nat random
  | ArtFetched nat art random

fun step :: "event \<Rightarrow> room \<Rightarrow> error + room" where
  "step (Join sock name) r = Inr (fst (join_existing sock name r))"
| "step (KickPlayer sock targetId) r = kick_player sock targetId r"
| "step (SubmitWord sock w) r = submit_word sock w r"
| "step (SubmitVote sock targetId) r = submit_vote sock targetId r"
| "step (SkipDiscussion sock) r = skip_discussion sock r"
| "step (SkipMatchEnd sock) r = skip_match_end sock r"
| "step (ToggleReady sock) r = toggle_ready sock r"
| "step (StartGame rnd) r = startGame rnd r"
| "step (AdminSkipPhase password rnd) r = admin_skip_phase password rnd r"
| "step (Disconnect sock) r = disconnect_in sock r"
| "step (Tick h rnd) r = tick h rnd r"
| "step (ArtFetched k a rnd) r = startGame_resume k a rnd r"

inductive reachable :: "room \<Rightarrow> bool" where
  created: "reachable (broadcastPublicRooms (broadcastPlayerList (new_room c sock name pub rp)))"
| stepped: "reachable r \<Longrightarrow> step ev r = Inr r' \<Longrightarrow> reachable r'"

section \<open>Notions used in the statements\<close>

text \<open>Filters on what a room has sent.\<close>

fun is_game_over :: "emit \<Rightarrow> bool" where
  "is_game_over (GameOver _ _ _) = True"
| "is_game_over _ = False"




text \<open>
  What the timer invariant looks at: the handle the room holds, its scheduled intervals
  and the next handle. \<open>own_timer_only\<close> says that at most one interval is scheduled,
  that it is the one whose handle the room holds, and that no handle in use is one that
  \<open>setInterval\<close> will still return.
\<close>

definition timers :: "room \<Rightarrow> nat option \<times> (nat \<times> callback) list \<times> nat" where
  "timers r = (timerInterval r, intervals r, nextHandle r)"

fun own_timer_only :: "nat option \<times> (nat \<times> callback) list \<times> nat \<Rightarrow> bool" where
  "own_timer_only (t, [], n) = (case t of None \<Rightarrow> True | Some h \<Rightarrow> h < n)"
| "own_timer_only (t, [e], n) = (t = Some (fst e) \<and> fst e < n)"
| "own_timer_only (t, e # e' # es, n) = False"

definition one_timer :: "room \<Rightarrow> bool" where
  "one_timer r = own_timer_only (timers r)"

section \<open>Sample executions\<close>

text \<open>
  Concrete rooms, each obtained from a freshly created room by a sequence of events, for
  the instances further down.
\<close>

fun run :: "event list \<Rightarrow> room \<Rightarrow> error + room" where
  "run [] r = Inr r"
| "run (ev # evs) r = (case step ev r of Inl e \<Rightarrow> Inl e | Inr r' \<Rightarrow> run evs r')"

definition or_else :: "error + room \<Rightarrow> room \<Rightarrow> room" where
  "or_else x d = (case x of Inl _ \<Rightarrow> d | Inr r \<Rightarrow> r)"

definition created_room :: room where
  "created_room =
     broadcastPublicRooms (broadcastPlayerList (new_room ''ABCDE'' ''a'' ''Alice'' True (Some 1)))"

definition sample_art :: art where
  "sample_art = \<lparr>innocent = ''i.png'', impostor = ''x.png'', theme = ''Portrait''\<rparr>"

definition sample_random :: random where
  "sample_random = \<lparr>roleShuffle = [0, 1, 2], turnShuffle = [0, 1, 2], emergencyArt = sample_art\<rparr>"

text \<open>Two ready players in LOBBY: the four-second countdown is running.\<close>

definition countdown_room :: room where
  "countdown_room =
     or_else (run [Join ''b'' ''Bob'', ToggleReady ''a'', ToggleReady ''b''] created_room)
       created_room"

text \<open>
  A one-round match of Alice (impostor), Bob and Carol that has reached VOTING; Dave
  joined during the round and has no role.
\<close>

definition voting_room :: room where
  "voting_room =
     or_else (run [Join ''b'' ''Bob'', Join ''c'' ''Carol'', StartGame sample_random,
                   ArtFetched 0 sample_art sample_random,
                   SubmitWord ''a'' ''red'', SubmitWord ''b'' ''blue'', SubmitWord ''c'' ''green'',
                   SkipDiscussion ''a'', SkipDiscussion ''b'', SkipDiscussion ''c'',
                   Join ''d'' ''Dave''] created_room)
       created_room"

definition voting_room_two_left :: room where
  "voting_room_two_left =
     or_else (run [Disconnect ''b'', Disconnect ''c''] voting_room) voting_room"

text \<open>A room whose creator chose a username with a leading blank.\<close>

definition padded_room :: room where
  "padded_room =
     broadcastPublicRooms (broadcastPlayerList (new_room ''ABCDE'' ''a'' '' bob'' True (Some 1)))"



definition two_rooms :: registry where
  "two_rooms = [''ABCDE'' \<mapsto> voting_room, ''FGHIJ'' \<mapsto> countdown_room]"

text \<open>A lobby of nine, and random outcomes for a round of nine.\<close>

definition nine_room :: room where
  "nine_room =
     or_else (run [Join ''b'' ''Bob'', Join ''c'' ''Carol'', Join ''d'' ''Dave'', Join ''e'' ''Erin'',
                   Join ''f'' ''Fay'', Join ''g'' ''Gus'', Join ''h'' ''Hal'', Join ''i'' ''Ida'']
                created_room) created_room"

definition nine_random :: random where
  "nine_random = \<lparr>roleShuffle = [4, 7, 0, 1, 2, 3, 5, 6, 8],
                   turnShuffle = [8, 7, 6, 5, 4, 3, 2, 1, 0], emergencyArt = sample_art\<rparr>"




section \<open>Basic facts\<close>

lemma emit_fields [simp]:
  "players (emit x r) = players r" "state (emit x r) = state r" "code (emit x r) = code r"
  "ownerId (emit x r) = ownerId r" "isPublic (emit x r) = isPublic r" "rounds (emit x r) = rounds r"
  "timerInterval (emit x r) = timerInterval r" "intervals (emit x r) = intervals r"
  "nextHandle (emit x r) = nextHandle r" "pending (emit x r) = pending r"
  "emitted (emit x r) = emitted r @ [x]"
  by (simp_all add: emit_def)

lemma broadcast_fields [simp]:
  "players (broadcastState r) = players r" "state (broadcastState r) = state r"
  "timerInterval (broadcastState r) = timerInterval r" "intervals (broadcastState r) = intervals r"
  "players (broadcastPlayerList r) = players r" "state (broadcastPlayerList r) = state r"
  "timerInterval (broadcastPlayerList r) = timerInterval r"
  "intervals (broadcastPlayerList r) = intervals r"
  "players (broadcastPublicRooms r) = players r" "state (broadcastPublicRooms r) = state r"
  "timerInterval (broadcastPublicRooms r) = timerInterval r"
  "intervals (broadcastPublicRooms r) = intervals r"
  by (simp_all add: broadcastState_def broadcastPlayerList_def broadcastPublicRooms_def)

lemma broadcast_misc [simp]:
  "ownerId (broadcastState r) = ownerId r" "ownerId (broadcastPlayerList r) = ownerId r"
  "ownerId (broadcastPublicRooms r) = ownerId r"
  "rounds (broadcastState r) = rounds r" "rounds (broadcastPlayerList r) = rounds r"
  "rounds (broadcastPublicRooms r) = rounds r"
  "pending (broadcastState r) = pending r" "pending (broadcastPlayerList r) = pending r"
  "pending (broadcastPublicRooms r) = pending r"
  by (simp_all add: broadcastState_def broadcastPlayerList_def broadcastPublicRooms_def)

lemma broadcast_emitted:
  "emitted (broadcastState r) = emitted r @ [GameStateUpdate (phase (state r)) (timer (state r))]"
  "emitted (broadcastPlayerList r) =
     emitted r @ [PlayerListUpdate (map (\<lambda>p. (pid p, role p \<noteq> None)) (players r))]"
  "emitted (broadcastPublicRooms r) = emitted r @ [PublicRoomsUpdate]"
  by (simp_all add: broadcastState_def broadcastPlayerList_def broadcastPublicRooms_def)

lemma update_first_length [simp]: "length (update_first P f xs) = length xs"
  by (induction xs) auto

lemma update_first_map:
  "(\<And>x. g (f x) = g x) \<Longrightarrow> map g (update_first P f xs) = map g xs"
  by (induction xs) auto

section \<open>Claims about single handlers\<close>

text \<open>
  C9. The claim is that every action handler is total, and in particular that
  \<open>submit_vote\<close> sent during VOTING with a valid room code by a connection that is no
  player of that room is a legal effect, a no-op or an error reply. The handler does not
  do that: it writes \<open>player.vote\<close> on the result of \<open>find\<close> without the
  \<open>if (player)\<close> test its sibling handlers make, so for such a connection the assignment
  throws a \<open>TypeError\<close> that nothing catches.
\<close>

theorem submit_vote_nonmember_throws:
  "phase (state r) = VOTING \<Longrightarrow> List.find (\<lambda>p. pid p = sock) (players r) = None
   \<Longrightarrow> submit_vote sock targetId r = Inl TypeError"
  by (simp add: submit_vote_def)

lemma voting_room_facts:
  "phase (state voting_room) = VOTING"
  "timer (state voting_room) = 30"
  "map pid (players voting_room) = [''a'', ''b'', ''c'', ''d'']"
  "List.find (\<lambda>p. pid p = ''x'') (players voting_room) = None"
  by code_simp+

theorem submit_vote_nonmember_throws_witness:
  "phase (state voting_room) = VOTING
   \<and> List.find (\<lambda>p. pid p = ''x'') (players voting_room) = None
   \<and> submit_vote ''x'' (Some ''a'') voting_room = Inl TypeError"
  using submit_vote_nonmember_throws [of voting_room "''x''" "Some ''a''"]
  by (simp add: voting_room_facts)

text \<open>The sibling handlers test what \<open>find\<close> returned and leave the room as it is.\<close>

lemma sibling_handlers_guard:
  assumes "List.find (\<lambda>p. pid p = sock) (players r) = None"
  shows "skip_discussion sock r = Inr r" "skip_match_end sock r = Inr r"
    "toggle_ready sock r = Inr r"
  using assms by (simp_all add: skip_discussion_def skip_match_end_def toggle_ready_def)

lemma transfer_owner_fields [simp]:
  "state (transfer_owner s b r) = state r" "intervals (transfer_owner s b r) = intervals r"
  "timerInterval (transfer_owner s b r) = timerInterval r"
  "emitted (transfer_owner s b r) = emitted r"
  "map score (players (transfer_owner s b r)) = map score (players r)"
  by (simp_all add: transfer_owner_def Let_def update_first_map)

text \<open>
  C6. The claim is that a room in VOTING which disconnects leave without any
  active-online player moves to RESULTS at once, with the tally performed. The
  \<open>disconnect\<close> handler does not do that: outside LOBBY it marks the player offline and
  has a special case for WRITING only. The test "nobody active is online, end the phase"
  exists, but in \<open>submit_vote\<close>, which needs somebody to send a vote. After a disconnect
  in VOTING the phase is still VOTING, the timer and its interval are untouched, no score
  has changed and no result has been announced, whoever is left.
\<close>

theorem disconnect_in_voting_no_tally:
  "phase (state r) = VOTING \<Longrightarrow>
   (case disconnect_in sock r of
      Inl e \<Rightarrow> False
    | Inr r' \<Rightarrow> phase (state r') = VOTING \<and> timer (state r') = timer (state r)
        \<and> timerInterval r' = timerInterval r \<and> intervals r' = intervals r
        \<and> map score (players r') = map score (players r)
        \<and> filter is_game_over (emitted r') = filter is_game_over (emitted r))"
  by (simp add: disconnect_in_def disconnect_room_def then_do_def Let_def update_first_map
      broadcast_emitted)

lemma two_left_facts:
  "phase (state voting_room_two_left) = VOTING"
  "timer (state voting_room_two_left) = 30"
  "intervals voting_room_two_left = [(4, PhaseTimer)]"
  "map isOffline (players voting_room_two_left) = [False, True, True, False]"
  "activeOnlinePlayers (players voting_room_two_left) = [hd (players voting_room_two_left)]"
  by code_simp+

lemma two_left_disconnect:
  "(case disconnect_in ''a'' voting_room_two_left of
      Inl e \<Rightarrow> False
    | Inr r' \<Rightarrow> activeOnlinePlayers (players r') = [] \<and> map pid (onlinePlayers r') = [''d''])"
  by code_simp

theorem disconnect_in_voting_no_tally_witness:
  "phase (state voting_room_two_left) = VOTING
   \<and> (case disconnect_in ''a'' voting_room_two_left of
        Inl e \<Rightarrow> False
      | Inr r' \<Rightarrow> activeOnlinePlayers (players r') = [] \<and> map pid (onlinePlayers r') = [''d'']
          \<and> phase (state r') = VOTING \<and> timer (state r') = 30
          \<and> intervals r' = [(4, PhaseTimer)]
          \<and> filter is_game_over (emitted r') = filter is_game_over (emitted voting_room_two_left))"
  using disconnect_in_voting_no_tally [of voting_room_two_left "''a''"] two_left_disconnect
  by (simp add: two_left_facts split: sum.splits)

text \<open>
  C7. The claim is that a player who joins unready while the four-second countdown runs
  cancels it, so that no countdown runs while somebody in the room is unready.
  \<open>toggle_ready\<close> and \<open>disconnect\<close> re-evaluate readiness and cancel; \<open>join_room\<close>
  does not: an accepted join appends the unready player and leaves phase, timer and the
  running interval as they were, so the countdown goes on and the game starts.
\<close>

theorem join_keeps_countdown:
  "length (players r) < 12 \<Longrightarrow> \<not> isTaken name (players r) \<Longrightarrow>
   (case join_existing sock name r of
      (r', rep) \<Rightarrow> players r' = players r @ [new_player sock name]
        \<and> \<not> isReady (last (players r')) \<and> \<not> allReady r'
        \<and> phase (state r') = phase (state r) \<and> timer (state r') = timer (state r)
        \<and> timerInterval r' = timerInterval r \<and> intervals r' = intervals r)"
  by (simp add: join_existing_def Let_def new_player_def allReady_def)

lemma countdown_room_facts:
  "phase (state countdown_room) = LOBBY"
  "timer (state countdown_room) = 4"
  "intervals countdown_room = [(0, PhaseTimer)]"
  "length (players countdown_room) = 2"
  "allReady countdown_room"
  "\<not> isTaken ''Carol'' (players countdown_room)"
  by code_simp+

theorem join_keeps_countdown_witness:
  "length (players countdown_room) < 12 \<and> \<not> isTaken ''Carol'' (players countdown_room)
   \<and> allReady countdown_room
   \<and> (case join_existing ''c'' ''Carol'' countdown_room of
        (r', rep) \<Rightarrow> \<not> allReady r' \<and> phase (state r') = LOBBY \<and> timer (state r') = 4
          \<and> intervals r' = [(0, PhaseTimer)])"
  using join_keeps_countdown [of countdown_room "''Carol''" "''c''"]
  by (simp add: countdown_room_facts split: prod.splits)

text \<open>The sibling path: a player who turns unready during the countdown cancels it.\<close>

lemma toggle_ready_cancels_countdown:
  "(case toggle_ready ''a'' countdown_room of
      Inl e \<Rightarrow> False
    | Inr r' \<Rightarrow> phase (state r') = LOBBY \<and> timer (state r') = 0 \<and> intervals r' = [])"
  by code_simp

subsection \<open>Joining\<close>

lemma dropWhile_length_eq: "length (dropWhile P xs) = length xs \<Longrightarrow> dropWhile P xs = xs"
proof (induction xs)
  case Nil
  then show ?case by simp
next
  case (Cons x xs)
  show ?case
  proof (cases "P x")
    case True
    with Cons.prems have "length (dropWhile P xs) = Suc (length xs)" by simp
    moreover have "length (dropWhile P xs) \<le> length xs" by (rule length_dropWhile_le)
    ultimately show ?thesis by simp
  next
    case False
    then show ?thesis by simp
  qed
qed

lemma trim_shorter:
  assumes "trim s \<noteq> s"
  shows "length (trim s) < length s"
proof (rule ccontr)
  assume "\<not> length (trim s) < length s"
  moreover have "length (dropWhile is_space s) \<le> length s"
    by (rule length_dropWhile_le)
  moreover have "length (trim s) \<le> length (dropWhile is_space s)"
    unfolding trim_def using length_dropWhile_le [of is_space "rev (dropWhile is_space s)"]
    by simp
  ultimately have lead: "length (dropWhile is_space s) = length s"
    and trail: "length (dropWhile is_space (rev (dropWhile is_space s)))
                 = length (rev (dropWhile is_space s))"
    by (simp_all add: trim_def)
  from lead have "dropWhile is_space s = s"
    by (rule dropWhile_length_eq)
  moreover from trail
  have "dropWhile is_space (rev (dropWhile is_space s)) = rev (dropWhile is_space s)"
    by (rule dropWhile_length_eq)
  ultimately have "trim s = s"
    by (simp add: trim_def)
  with assms show False by simp
qed

lemma padded_name_not_taken:
  assumes "list_all (\<lambda>p. username p = name) ps" "trim name \<noteq> name"
  shows "\<not> isTaken name ps"
proof -
  have "length (toLowerCase name) \<noteq> length (toLowerCase (trim name))"
    using trim_shorter [OF assms(2)] by (simp add: toLowerCase_def)
  then have "toLowerCase name \<noteq> toLowerCase (trim name)" by auto
  with assms(1) show ?thesis
    by (auto simp: isTaken_def list_ex_iff list_all_iff)
qed

text \<open>
  C5. The claim is that a join request on an existing room is rejected, with the room
  unchanged, when the room has 12 players or the requested username collides
  case-insensitively with a username in the room, and that otherwise a player with default
  fields is appended. The uniqueness test compares the stored names, lower-cased, with the
  requested name trimmed and lower-cased, but the name stored on acceptance is the
  untrimmed one. A request that repeats, character for character, a stored name with
  surrounding white space is therefore accepted, and the room then holds the same username
  twice.
\<close>

theorem join_room_accepts_same_padded_name:
  "c \<noteq> [] \<Longrightarrow> rooms (toUpperCase c) = Some r \<Longrightarrow> length (players r) < 12
   \<Longrightarrow> list_all (\<lambda>p. username p = name) (players r) \<Longrightarrow> trim name \<noteq> name
   \<Longrightarrow> (case join_room sock name (Some c) rooms of
          (rooms', rep) \<Rightarrow>
            rep = RoomJoined (code r) name (players r @ [new_player sock name]) False (isPublic r)
            \<and> map_option players (rooms' (toUpperCase c)) = Some (players r @ [new_player sock name]))"
  by (simp add: join_room_def join_existing_def padded_name_not_taken Let_def)

lemma padded_room_facts:
  "toUpperCase ''abcde'' = ''ABCDE''"
  "map username (players padded_room) = ['' bob'']"
  "list_all (\<lambda>p. username p = '' bob'') (players padded_room)"
  "trim '' bob'' = ''bob''"
  "length (players padded_room) = 1"
  by code_simp+

theorem join_room_accepts_same_padded_name_witness:
  "map username (players padded_room) = ['' bob'']
   \<and> (case join_room ''b'' '' bob'' (Some ''abcde'') [''ABCDE'' \<mapsto> padded_room] of
        (rooms', rep) \<Rightarrow>
          map_option (map username \<circ> players) (rooms' ''ABCDE'') = Some ['' bob'', '' bob''])"
  using join_room_accepts_same_padded_name
    [of "''abcde''" "[''ABCDE'' \<mapsto> padded_room]" padded_room "'' bob''" "''b''"]
  by (auto simp add: padded_room_facts new_player_def split: prod.splits)

text \<open>What does hold of the join contract: a rejected request leaves the registry as it was.\<close>

lemma join_room_rejections:
  assumes "c \<noteq> []" "rooms (toUpperCase c) = Some r"
  shows "length (players r) \<ge> 12 \<Longrightarrow> join_room sock name (Some c) rooms = (rooms, Error RoomFull)"
    and "length (players r) < 12 \<Longrightarrow> isTaken name (players r)
         \<Longrightarrow> join_room sock name (Some c) rooms = (rooms, Error NameTaken)"
  using assms by (simp_all add: join_room_def join_existing_def map_upd_triv)

subsection \<open>Creating a room\<close>

text \<open>
  C8, as the code has it. \<open>create_room\<close> calls the generator once and stores the new
  room under the code it returned, whether or not that code is registered already: after
  the request the registry holds, under that code, a room in LOBBY at rest whose only
  player is the creator, and every other code maps to what it mapped to before. Nothing
  looks for a collision, and nothing generates a second code.
\<close>

theorem create_room_stores_under_generated_code:
  "(case create_room c sock name pub rp rooms of
      (rooms', rep) \<Rightarrow>
        (case rooms' c of
           None \<Rightarrow> False
         | Some r \<Rightarrow> code r = c \<and> ownerId r = sock \<and> phase (state r) = LOBBY
             \<and> timer (state r) = 0 \<and> intervals r = []
             \<and> players r = [(new_player sock name)\<lparr>isOwner := True\<rparr>])
        \<and> (\<forall>c'. c' \<noteq> c \<longrightarrow> rooms' c' = rooms c')
        \<and> rep = RoomJoined c name [(new_player sock name)\<lparr>isOwner := True\<rparr>] True pub)"
  by (simp add: create_room_def Let_def new_room_def broadcastPublicRooms_def
      broadcastPlayerList_def emit_def)

theorem create_room_stores_under_generated_code_witness:
  "(case create_room ''ABCDE'' ''z'' ''Zed'' True (Some 5) two_rooms of
      (rooms', rep) \<Rightarrow>
        map_option (map pid \<circ> players) (rooms' ''ABCDE'') = Some [''z'']
        \<and> rooms' ''FGHIJ'' = Some countdown_room)"
  using create_room_stores_under_generated_code
    [where c = "''ABCDE''" and sock = "''z''" and name = "''Zed''" and pub = True and rp = "Some 5"
       and rooms = two_rooms]
  by (auto simp add: two_rooms_def new_player_def split: prod.splits option.splits)

text \<open>
  The claim as stated, that room creation never replaces an existing room's state, fails
  when the generator returns a code in use: the four-player room registered under
  \<open>ABCDE\<close> is gone after the request, and a one-player room stands in its place.
\<close>

theorem create_room_overwrites_counterexample:
  "two_rooms ''ABCDE'' = Some voting_room
   \<and> map pid (players voting_room) = [''a'', ''b'', ''c'', ''d'']
   \<and> fst (create_room ''ABCDE'' ''z'' ''Zed'' True (Some 5) two_rooms) ''ABCDE'' \<noteq> Some voting_room
   \<and> map_option (map pid \<circ> players)
        (fst (create_room ''ABCDE'' ''z'' ''Zed'' True (Some 5) two_rooms) ''ABCDE'') = Some [''z'']"
proof -
  let ?new = "fst (create_room ''ABCDE'' ''z'' ''Zed'' True (Some 5) two_rooms) ''ABCDE''"
  have new: "map_option (map pid \<circ> players) ?new = Some [''z'']"
    by (simp add: create_room_def Let_def new_room_def new_player_def)
  have old: "map_option (map pid \<circ> players) (Some voting_room) = Some [''a'', ''b'', ''c'', ''d'']"
    by (simp add: voting_room_facts)
  from new old have "?new \<noteq> Some voting_room"
    by (metis list.inject list.distinct(1) option.inject)
  with new show ?thesis
    by (simp add: two_rooms_def voting_room_facts)
qed

subsection \<open>Awarding the winners of a match\<close>


lemma notify_fields [simp]:
  "players (notifyVecbotWinner n r) = players r" "state (notifyVecbotWinner n r) = state r"
  "timerInterval (notifyVecbotWinner n r) = timerInterval r"
  "intervals (notifyVecbotWinner n r) = intervals r"
  by (simp_all add: notifyVecbotWinner_def)

lemma fold_notify_fields [simp]:
  "players (fold (\<lambda>w. notifyVecbotWinner (g w)) ws r) = players r"
  "state (fold (\<lambda>w. notifyVecbotWinner (g w)) ws r) = state r"
  "timerInterval (fold (\<lambda>w. notifyVecbotWinner (g w)) ws r) = timerInterval r"
  "intervals (fold (\<lambda>w. notifyVecbotWinner (g w)) ws r) = intervals r"
  by (induction ws arbitrary: r) simp_all







subsection \<open>Role assignment at round rollover\<close>

declare startTurn.simps [simp del]

lemma clear_timer_fields [simp]:
  "players (clear_timer r) = players r" "state (clear_timer r) = state r"
  "timerInterval (clear_timer r) = timerInterval r" "nextHandle (clear_timer r) = nextHandle r"
  "rounds (clear_timer r) = rounds r" "pending (clear_timer r) = pending r"
  by (simp_all add: clear_timer_def clearInterval_def split: option.splits)

lemma setInterval_fields [simp]:
  "players (setInterval cb r) = players r" "state (setInterval cb r) = state r"
  "rounds (setInterval cb r) = rounds r" "pending (setInterval cb r) = pending r"
  by (simp_all add: setInterval_def)

lemma setPhase_fields [simp]:
  "players (setPhase r ph d) = players r"
  "state (setPhase r ph d) = (state r)\<lparr>phase := ph, timer := d\<rparr>"
  "rounds (setPhase r ph d) = rounds r" "pending (setPhase r ph d) = pending r"
  by (simp_all add: setPhase_def Let_def)

lemma next_turn_fields [simp]:
  "players (next_turn r) = players r" "turnOrder (state (next_turn r)) = turnOrder (state r)"
  "timerInterval (next_turn r) = timerInterval r" "intervals (next_turn r) = intervals r"
  "nextHandle (next_turn r) = nextHandle r"
  by (simp_all add: next_turn_def)

lemma startTurn_players:
  assumes f: "\<And>p b. f (p\<lparr>hasSkippedDiscussion := b\<rparr>) = f p"
  shows "startTurn r = Inr r' \<Longrightarrow> map f (players r') = map f (players r)"
proof (induction r arbitrary: r' rule: startTurn.induct)
  case (1 r)
  show ?case
  proof (cases "turnOrder (state r)")
    case None
    with "1.prems" show ?thesis by (simp add: startTurn.simps [of r])
  next
    case (Some ord)
    note ord = this
    show ?thesis
    proof (cases "length ord \<le> turnIndex (state r)")
      case True
      with ord "1.prems" show ?thesis
        by (auto simp: startTurn.simps [of r] Let_def o_def f)
    next
      case False
      let ?w = "ord ! turnIndex (state r)"
      show ?thesis
      proof (cases "List.find (\<lambda>p. pid p = ?w) (players r)")
        case None
        with ord False "1.prems" have "startTurn (next_turn r) = Inr r'"
          by (simp add: startTurn.simps [of r])
        with "1.IH"(1) [OF ord _ refl None] False show ?thesis by simp
      next
        case (Some cw)
        show ?thesis
        proof (cases "isOffline cw")
          case True
          with Some ord False "1.prems" have "startTurn (next_turn r) = Inr r'"
            by (simp add: startTurn.simps [of r])
          with "1.IH"(2) [OF ord _ refl Some True] False show ?thesis by simp
        next
          case present: False
          with Some ord False "1.prems" show ?thesis
            by (auto simp: startTurn.simps [of r] Let_def)
        qed
      qed
    qed
  qed
qed

lemma startTurn_total:
  "turnOrder (state r) \<noteq> None \<Longrightarrow> \<exists>r'. startTurn r = Inr r'"
proof (induction r rule: startTurn.induct)
  case (1 r)
  from "1.prems" obtain ord where ord: "turnOrder (state r) = Some ord" by auto
  show ?case
    apply (subst startTurn.simps)
    using ord "1.IH" "1.prems"
    apply (auto simp: Let_def split: option.splits)
    done
qed


lemma shuffled_props:
  "length (shuffled perm n) = n" "distinct (shuffled perm n)"
  "list_all (\<lambda>i. i < n) (shuffled perm n)"
  by (auto simp: shuffled_def is_permutation_def list_all_iff)

lemma startWritingPhase_players:
  assumes f: "\<And>p b. f (p\<lparr>hasSkippedDiscussion := b\<rparr>) = f p" "\<And>p w. f (p\<lparr>word := w\<rparr>) = f p"
  shows "\<exists>r'. startWritingPhase perm r = Inr r' \<and> map f (players r') = map f (players r)"
proof -
  let ?r3 = "let r1 = broadcastPublicRooms (r\<lparr>state := (state r)\<lparr>phase := WRITING\<rparr>\<rparr>);
          ids = map pid (players r1);
          r2 = r1\<lparr>state := (state r1)\<lparr>turnOrder := Some (map (\<lambda>i. ids ! i) (shuffled perm (length ids))),
                                       turnIndex := 0\<rparr>\<rparr>
      in r2\<lparr>players := map (\<lambda>p. p\<lparr>word := None\<rparr>) (players r2)\<rparr>"
  have eq: "startWritingPhase perm r = startTurn ?r3"
    by (simp add: startWritingPhase_def Let_def)
  have "turnOrder (state ?r3) \<noteq> None" by (simp add: Let_def)
  then obtain r' where r': "startTurn ?r3 = Inr r'"
    using startTurn_total by blast
  then have "map f (players r') = map f (players ?r3)"
    by (rule startTurn_players [OF f(1)])
  also have "\<dots> = map f (players r)" by (simp add: Let_def o_def f(2))
  finally show ?thesis using eq r' by simp
qed

lemma assign_impostors_length [simp]: "length (assign_impostors chosen ps) = length ps"
  unfolding assign_impostors_def by (induction chosen arbitrary: ps) simp_all

lemma assign_impostors_nth:
  "list_all (\<lambda>i. i < length ps) chosen \<Longrightarrow> j < length ps \<Longrightarrow>
   assign_impostors chosen ps ! j
     = (if j \<in> set chosen then (ps ! j)\<lparr>role := Some Impostor\<rparr> else ps ! j)"
  unfolding assign_impostors_def
proof (induction chosen arbitrary: ps)
  case Nil
  then show ?case by simp
next
  case (Cons i chosen)
  let ?qs = "ps[i := (ps ! i)\<lparr>role := Some Impostor\<rparr>]"
  from Cons.prems have "list_all (\<lambda>i. i < length ?qs) chosen" "j < length ?qs" "i < length ps"
    by simp_all
  with Cons.IH [of ?qs] show ?case
    by (auto simp: nth_list_update)
qed

lemma assign_impostors_count:
  assumes "distinct chosen" "list_all (\<lambda>i. i < length ps) chosen"
    and "list_all (\<lambda>p. role p = Some Innocent) ps"
  shows "length (filter (\<lambda>p. role p = Some Impostor) (assign_impostors chosen ps)) = length chosen"
    and "list_all (\<lambda>p. role p = Some Impostor \<or> role p = Some Innocent) (assign_impostors chosen ps)"
proof -
  let ?qs = "assign_impostors chosen ps"
  have nth: "\<And>j. j < length ps \<Longrightarrow> role (?qs ! j) = (if j \<in> set chosen then Some Impostor else Some Innocent)"
    using assms(2,3) by (simp add: assign_impostors_nth list_all_length)
  have "{j. j < length ?qs \<and> role (?qs ! j) = Some Impostor} = set chosen"
    using nth assms(2) by (auto simp: list_all_iff split: if_splits)
  then have "length (filter (\<lambda>p. role p = Some Impostor) ?qs) = card (set chosen)"
    by (simp add: length_filter_conv_card)
  with assms(1) show "length (filter (\<lambda>p. role p = Some Impostor) ?qs) = length chosen"
    by (simp add: distinct_card)
  show "list_all (\<lambda>p. role p = Some Impostor \<or> role p = Some Innocent) ?qs"
    using nth by (simp add: list_all_length)
qed

lemma fold_emit_fields [simp]:
  "players (fold (\<lambda>p. emit (f p)) ps r) = players r"
  "state (fold (\<lambda>p. emit (f p)) ps r) = state r"
  "timerInterval (fold (\<lambda>p. emit (f p)) ps r) = timerInterval r"
  "intervals (fold (\<lambda>p. emit (f p)) ps r) = intervals r"
  by (induction ps arbitrary: r) simp_all

lemma round_init_fields [simp]:
  "players (round_init r) = players r" "state (round_init r) = state r"
  "timerInterval (round_init r) = timerInterval r" "intervals (round_init r) = intervals r"
  by (simp_all add: round_init_def)

lemma assign_impostors_pid [simp]: "map pid (assign_impostors chosen ps) = map pid ps"
  unfolding assign_impostors_def
proof (induction chosen arbitrary: ps)
  case Nil
  then show ?case by simp
next
  case (Cons i chosen)
  have "map pid (ps[i := (ps ! i)\<lparr>role := Some Impostor\<rparr>]) = map pid ps"
    by (cases "i < length ps") (simp_all add: map_update list_update_same_conv list_update_beyond)
  with Cons.IH [of "ps[i := (ps ! i)\<lparr>role := Some Impostor\<rparr>]"] show ?case by simp
qed

lemma length_filter_map: "length (filter P (map f xs)) = length (filter (\<lambda>x. P (f x)) xs)"
  by (induction xs) simp_all

lemma list_all_map: "list_all P (map f xs) = list_all (\<lambda>x. P (f x)) xs"
  by (induction xs) simp_all

lemma nextRound_proceeds:
  assumes "2 \<le> length (onlinePlayers r)"
  shows "\<exists>r'. nextRound rnd r = Inr r'
           \<and> map pid (players r') = map pid (onlinePlayers r)
           \<and> map role (players r') =
             map role (assign_impostors
               (take (if 8 \<le> length (onlinePlayers r) then 2 else 1)
                  (shuffled (roleShuffle rnd) (length (onlinePlayers r))))
               (map (\<lambda>p. p\<lparr>role := Some Innocent\<rparr>)
                  (map (\<lambda>p. p\<lparr>role := None, word := None, vote := None, isReady := True\<rparr>)
                     (onlinePlayers r))))"
proof -
  let ?target = "assign_impostors
               (take (if 8 \<le> length (onlinePlayers r) then 2 else 1)
                  (shuffled (roleShuffle rnd) (length (onlinePlayers r))))
               (map (\<lambda>p. p\<lparr>role := Some Innocent\<rparr>)
                  (map (\<lambda>p. p\<lparr>role := None, word := None, vote := None, isReady := True\<rparr>)
                     (onlinePlayers r)))"
  from assms have big: "\<not> length (onlinePlayers r) < 2" by simp
  have "\<exists>r7. nextRound rnd r = startWritingPhase (turnShuffle rnd) r7 \<and> players r7 = ?target"
    unfolding nextRound_def Let_def using big
    apply (simp add: onlinePlayers_def split del: if_split cong: if_cong)
    apply (rule exI, rule conjI, rule refl)
    apply (simp split del: if_split cong: if_cong)
    done
  then obtain r7 where r7: "nextRound rnd r = startWritingPhase (turnShuffle rnd) r7"
      "players r7 = ?target"
    by blast
  from startWritingPhase_players [of role "turnShuffle rnd" r7]
  obtain r' where r': "startWritingPhase (turnShuffle rnd) r7 = Inr r'"
    "map role (players r') = map role (players r7)"
    by auto
  from startWritingPhase_players [of pid "turnShuffle rnd" r7] r'(1)
  have "map pid (players r') = map pid (players r7)"
    by auto
  with r7 r' show ?thesis
    by (simp add: o_def)
qed

lemma nextRound_roles:
  assumes two: "2 \<le> length (onlinePlayers r)"
  shows "\<exists>r'. nextRound rnd r = Inr r'
           \<and> map pid (players r') = map pid (onlinePlayers r)
           \<and> length (filter (\<lambda>p. role p = Some Impostor) (players r'))
               = (if 8 \<le> length (onlinePlayers r) then 2 else 1)
           \<and> list_all (\<lambda>p. role p = Some Impostor \<or> role p = Some Innocent) (players r')"
proof -
  let ?n = "length (onlinePlayers r)"
  let ?k = "if 8 \<le> ?n then 2 else 1 :: nat"
  let ?chosen = "take ?k (shuffled (roleShuffle rnd) ?n)"
  let ?ps = "map (\<lambda>p. p\<lparr>role := Some Innocent\<rparr>)
               (map (\<lambda>p. p\<lparr>role := None, word := None, vote := None, isReady := True\<rparr>)
                  (onlinePlayers r))"
  from nextRound_proceeds [OF two, of rnd] obtain r'
    where r': "nextRound rnd r = Inr r'"
      and pids: "map pid (players r') = map pid (onlinePlayers r)"
      and roles: "map role (players r') = map role (assign_impostors ?chosen ?ps)"
    by blast
  have d: "distinct ?chosen"
    by (simp add: shuffled_props distinct_take)
  have lt: "list_all (\<lambda>i. i < length ?ps) ?chosen"
    using shuffled_props(3) [of ?n "roleShuffle rnd"]
    by (auto simp: list_all_iff dest: in_set_takeD)
  have inn: "list_all (\<lambda>p. role p = Some Innocent) ?ps"
    by (simp add: list_all_iff)
  have len: "length ?chosen = ?k"
    using two by (simp add: shuffled_props)
  note cnt = assign_impostors_count [OF d lt inn]
  have "length (filter (\<lambda>p. role p = Some Impostor) (players r'))
          = length (filter (\<lambda>x. x = Some Impostor) (map role (players r')))"
    by (simp only: length_filter_map)
  also have "\<dots> = length (filter (\<lambda>x. x = Some Impostor) (map role (assign_impostors ?chosen ?ps)))"
    by (simp only: roles)
  also have "\<dots> = length (filter (\<lambda>p. role p = Some Impostor) (assign_impostors ?chosen ?ps))"
    by (simp only: length_filter_map)
  also have "\<dots> = length ?chosen"
    by (rule cnt(1))
  finally have c2: "length (filter (\<lambda>p. role p = Some Impostor) (players r')) = ?k"
    by (simp only: len)
  have "list_all (\<lambda>p. role p = Some Impostor \<or> role p = Some Innocent) (players r')
          = list_all (\<lambda>x. x = Some Impostor \<or> x = Some Innocent) (map role (players r'))"
    by (simp only: list_all_map)
  also have "\<dots> = list_all (\<lambda>x. x = Some Impostor \<or> x = Some Innocent)
                      (map role (assign_impostors ?chosen ?ps))"
    by (simp only: roles)
  also have "\<dots> = list_all (\<lambda>p. role p = Some Impostor \<or> role p = Some Innocent)
                      (assign_impostors ?chosen ?ps)"
    by (simp only: list_all_map)
  finally have c3: "list_all (\<lambda>p. role p = Some Impostor \<or> role p = Some Innocent) (players r')"
    using cnt(2) by simp
  from r' pids c2 c3 show ?thesis by blast
qed

text \<open>
  C2. Whenever \<open>nextRound\<close> proceeds into a round, that is, when at least two players
  are left after the offline ones were purged, it returns normally, the roster is the
  purged one, exactly one player holds the impostor role when fewer than 8 players are
  left and exactly two players hold it when 8 or more are left, and every other player is
  innocent. This holds for every outcome of the shuffle.
\<close>

theorem nextRound_impostor_count:
  "2 \<le> length (onlinePlayers r) \<Longrightarrow>
   (case nextRound rnd r of
      Inl e \<Rightarrow> False
    | Inr r' \<Rightarrow>
        length (players r') = length (onlinePlayers r)
        \<and> length (filter (\<lambda>p. role p = Some Impostor) (players r'))
            = (if 8 \<le> length (onlinePlayers r) then 2 else 1)
        \<and> list_all (\<lambda>p. role p = Some Impostor \<or> role p = Some Innocent) (players r'))"
proof -
  assume "2 \<le> length (onlinePlayers r)"
  from nextRound_roles [OF this, of rnd] obtain r'
    where r': "nextRound rnd r = Inr r'"
      and pids: "map pid (players r') = map pid (onlinePlayers r)"
      and rest: "length (filter (\<lambda>p. role p = Some Impostor) (players r'))
               = (if 8 \<le> length (onlinePlayers r) then 2 else 1)"
         "list_all (\<lambda>p. role p = Some Impostor \<or> role p = Some Innocent) (players r')"
    by blast
  from pids have "length (players r') = length (onlinePlayers r)"
    by (rule map_eq_imp_length_eq)
  with r' rest show ?thesis by simp
qed

lemma nine_room_facts:
  "length (onlinePlayers nine_room) = 9
   \<and> length (onlinePlayers created_room) = 1
   \<and> (case nextRound nine_random nine_room of
        Inl e \<Rightarrow> False
      | Inr r' \<Rightarrow> map role (players r')
          = [Some Innocent, Some Innocent, Some Innocent, Some Innocent, Some Impostor,
             Some Innocent, Some Innocent, Some Impostor, Some Innocent])"
  by code_simp

theorem nextRound_impostor_count_witness:
  "2 \<le> length (onlinePlayers nine_room)
   \<and> (case nextRound nine_random nine_room of
        Inl e \<Rightarrow> False
      | Inr r' \<Rightarrow>
          length (players r') = 9
          \<and> length (filter (\<lambda>p. role p = Some Impostor) (players r')) = 2
          \<and> map role (players r')
              = [Some Innocent, Some Innocent, Some Innocent, Some Innocent, Some Impostor,
                 Some Innocent, Some Innocent, Some Impostor, Some Innocent])"
  using nextRound_impostor_count [of nine_room nine_random] nine_room_facts
  by (simp split: sum.splits)

subsection \<open>Joining in the middle of a match\<close>






subsection \<open>Vote resolution\<close>





lemma timer_emitted [simp]:
  "emitted (clear_timer r) = emitted r" "emitted (setInterval cb r) = emitted r"
  by (simp_all add: clear_timer_def clearInterval_def setInterval_def split: option.splits)








section \<open>The timer of a room\<close>

lemma timers_updates [simp]:
  "timers (r\<lparr>players := ps\<rparr>) = timers r" "timers (r\<lparr>state := s\<rparr>) = timers r"
  "timers (r\<lparr>ownerId := ow\<rparr>) = timers r" "timers (r\<lparr>pending := pe\<rparr>) = timers r"
  "timers (r\<lparr>emitted := em\<rparr>) = timers r"
  by (simp_all add: timers_def)

lemma timers_emit [simp]: "timers (emit x r) = timers r"
  by (simp add: timers_def)

lemma timers_broadcast [simp]:
  "timers (broadcastState r) = timers r" "timers (broadcastPlayerList r) = timers r"
  "timers (broadcastPublicRooms r) = timers r"
  by (simp_all add: broadcastState_def broadcastPlayerList_def broadcastPublicRooms_def)

lemma timers_fold_emit [simp]: "timers (fold (\<lambda>p. emit (f p)) ps r) = timers r"
  by (induction ps arbitrary: r) simp_all

lemma timers_notify [simp]: "timers (notifyVecbotWinner n r) = timers r"
  by (simp add: notifyVecbotWinner_def)

lemma timers_fold_notify [simp]: "timers (fold (\<lambda>w. notifyVecbotWinner (g w)) ws r) = timers r"
  by (induction ws arbitrary: r) simp_all

lemma timers_frame [simp]:
  "timers (next_turn r) = timers r" "timers (round_init r) = timers r"
  "timers (transfer_owner s b r) = timers r" "timers (resetMatch r) = timers r"
  "timers (awardMatchWinners r) = timers r"
  by (simp_all add: next_turn_def round_init_def transfer_owner_def resetMatch_def
      awardMatchWinners_def Let_def)

lemma one_timer_iff:
  "one_timer r =
     ((intervals r = [] \<and> (\<forall>h. timerInterval r = Some h \<longrightarrow> h < nextHandle r))
      \<or> (\<exists>h cb. intervals r = [(h, cb)] \<and> timerInterval r = Some h \<and> h < nextHandle r))"
proof (cases "intervals r")
  case Nil
  then show ?thesis
    by (auto simp: one_timer_def timers_def split: option.splits)
next
  case (Cons e es)
  then show ?thesis
    by (cases es; cases e) (auto simp: one_timer_def timers_def)
qed

lemma timers_clear_timer:
  assumes "one_timer r"
  shows "timers (clear_timer r) = (timerInterval r, [], nextHandle r)"
  using assms unfolding one_timer_iff
  by (auto simp: timers_def clear_timer_def clearInterval_def split: option.splits)

lemma one_timer_clear_timer: "one_timer r \<Longrightarrow> one_timer (clear_timer r)"
  using timers_clear_timer [of r]
  by (auto simp: one_timer_def [of "clear_timer r"] one_timer_iff [of r] split: option.splits)

lemma timers_setInterval:
  "timers (setInterval cb r)
     = (Some (nextHandle r), intervals r @ [(nextHandle r, cb)], Suc (nextHandle r))"
  by (simp add: timers_def setInterval_def)

lemma timers_arm:
  "timers r = (t, [], n) \<Longrightarrow> timers (setInterval cb r) = (Some n, [(n, cb)], Suc n)"
  by (simp add: timers_def setInterval_def)

lemma timers_setPhase:
  assumes "one_timer r"
  shows "timers (setPhase r ph d)
           = (if 0 < d then (Some (nextHandle r), [(nextHandle r, PhaseTimer)], Suc (nextHandle r))
              else (timerInterval r, [], nextHandle r))"
proof -
  let ?r1 = "r\<lparr>state := (state r)\<lparr>phase := ph, timer := d\<rparr>\<rparr>"
  let ?r4 = "if ph \<noteq> LOBBY then broadcastPublicRooms (broadcastState (clear_timer ?r1))
             else broadcastState (clear_timer ?r1)"
  from assms have "one_timer ?r1" by (simp add: one_timer_def)
  from timers_clear_timer [OF this]
  have c: "timers (clear_timer ?r1) = (timerInterval r, [], nextHandle r)"
    by simp
  have b: "timers ?r4 = (timerInterval r, [], nextHandle r)"
  proof (cases "ph = LOBBY")
    case True
    with c show ?thesis by simp
  next
    case False
    with c show ?thesis by simp
  qed
  show ?thesis
  proof (cases "0 < d")
    case True
    then have "setPhase r ph d = setInterval PhaseTimer ?r4"
      by (simp add: setPhase_def Let_def)
    with timers_arm [OF b, of PhaseTimer] True show ?thesis
      by simp
  next
    case False
    then have "setPhase r ph d = ?r4"
      by (simp add: setPhase_def Let_def)
    with b False show ?thesis
      by simp
  qed
qed

lemma one_timer_setPhase: "one_timer r \<Longrightarrow> one_timer (setPhase r ph d)"
  by (auto simp: one_timer_def [of "setPhase r ph d"] timers_setPhase one_timer_iff [of r]
      split: option.splits)


lemma one_timer_cong: "one_timer r \<Longrightarrow> timers x = timers r \<Longrightarrow> one_timer x"
  by (simp only: one_timer_def)

lemma timers_clear_timer_eq:
  assumes "one_timer r" "timers x = timers r"
  shows "timers (clear_timer x) = (timerInterval r, [], nextHandle r)"
proof -
  from assms have "one_timer x" by (rule one_timer_cong)
  then have "timers (clear_timer x) = (timerInterval x, [], nextHandle x)"
    by (rule timers_clear_timer)
  moreover from assms(2) have "timerInterval x = timerInterval r" "nextHandle x = nextHandle r"
    unfolding timers_def by (simp_all only: prod.inject)
  ultimately show ?thesis by (simp only:)
qed

lemma timers_startTurn:
  "one_timer r \<Longrightarrow> startTurn r = Inr r' \<Longrightarrow>
   \<exists>cb. timers r' = (Some (nextHandle r), [(nextHandle r, cb)], Suc (nextHandle r))"
proof (induction r arbitrary: r' rule: startTurn.induct)
  case (1 r)
  note inv = \<open>one_timer r\<close> and run = \<open>startTurn r = Inr r'\<close>
  from inv have nt: "one_timer (next_turn r)"
    by (rule one_timer_cong) simp
  have nh: "nextHandle (next_turn r) = nextHandle r"
    by simp
  show ?case
  proof (cases "turnOrder (state r)")
    case None
    with run show ?thesis by (simp add: startTurn.simps [of r])
  next
    case (Some ord)
    note ord = this
    show ?thesis
    proof (cases "length ord \<le> turnIndex (state r)")
      case True
      with ord run have "timers r' = timers (setPhase r DISCUSSING 120)"
        by (auto simp: startTurn.simps [of r] Let_def)
      with timers_setPhase [OF inv, of DISCUSSING 120] show ?thesis by simp
    next
      case False
      let ?w = "ord ! turnIndex (state r)"
      show ?thesis
      proof (cases "List.find (\<lambda>p. pid p = ?w) (players r)")
        case None
        with ord False run have "startTurn (next_turn r) = Inr r'"
          by (simp add: startTurn.simps [of r])
        with "1.IH"(1) [OF ord _ refl None nt] False nh show ?thesis by simp
      next
        case (Some cw)
        show ?thesis
        proof (cases "isOffline cw")
          case True
          with Some ord False run have "startTurn (next_turn r) = Inr r'"
            by (simp add: startTurn.simps [of r])
          with "1.IH"(2) [OF ord _ refl Some True nt] False nh show ?thesis by simp
        next
          case present: False
          let ?x = "broadcastState (r\<lparr>state := (state r)\<lparr>timer := 30,
                                   turn := Some (?w, username cw)\<rparr>\<rparr>)"
          from Some ord False present run
          have r': "r' = setInterval TurnTimer (clear_timer ?x)"
            by (auto simp: startTurn.simps [of r] Let_def)
          have "timers (clear_timer ?x) = (timerInterval r, [], nextHandle r)"
            by (rule timers_clear_timer_eq [OF inv]) simp
          from timers_arm [OF this, of TurnTimer] r' show ?thesis by blast
        qed
      qed
    qed
  qed
qed

lemma one_timer_startTurn: "one_timer r \<Longrightarrow> startTurn r = Inr r' \<Longrightarrow> one_timer r'"
  using timers_startTurn [of r r'] by (auto simp: one_timer_def [of r'])

lemma one_timer_advanceTurn:
  assumes "one_timer r" "advanceTurn r = Inr r'"
  shows "one_timer r'"
proof -
  from assms(1) have "one_timer (next_turn r)"
    by (rule one_timer_cong) simp
  moreover from assms(2) have "startTurn (next_turn r) = Inr r'"
    by (simp add: advanceTurn_def)
  ultimately show ?thesis by (rule one_timer_startTurn)
qed

lemma one_timer_calculateResults:
  assumes "one_timer r"
  shows "one_timer (calculateResults r)"
proof -
  have "\<exists>x. calculateResults r = setPhase x RESULTS 5 \<and> timers x = timers r"
    unfolding calculateResults_def Let_def
    by (rule exI, rule conjI, rule refl) simp
  then obtain x where x: "calculateResults r = setPhase x RESULTS 5" "timers x = timers r"
    by blast
  from assms x(2) have "one_timer x" by (rule one_timer_cong)
  then show ?thesis unfolding x(1) by (rule one_timer_setPhase)
qed

lemma one_timer_startWritingPhase:
  assumes "one_timer r" "startWritingPhase perm r = Inr r'"
  shows "one_timer r'"
proof -
  have "\<exists>x. startWritingPhase perm r = startTurn x \<and> timers x = timers r"
    unfolding startWritingPhase_def Let_def
    by (rule exI, rule conjI, rule refl) simp
  then obtain x where x: "startWritingPhase perm r = startTurn x" "timers x = timers r"
    by blast
  from assms(1) x(2) have "one_timer x" by (rule one_timer_cong)
  moreover from assms(2) x(1) have "startTurn x = Inr r'" by simp
  ultimately show ?thesis by (rule one_timer_startTurn)
qed

lemma one_timer_reset:
  assumes "one_timer r" "timers x = timers r"
  shows "one_timer (resetMatch (setPhase x LOBBY 0))"
proof -
  from assms have "one_timer x" by (rule one_timer_cong)
  then have "one_timer (setPhase x LOBBY 0)" by (rule one_timer_setPhase)
  then show ?thesis by (rule one_timer_cong) simp
qed

lemma one_timer_nextRound:
  assumes "one_timer r" "nextRound rnd r = Inr r'"
  shows "one_timer r'"
proof (cases "length (onlinePlayers r) < 2")
  case True
  let ?r1 = "broadcastPlayerList (r\<lparr>players := filter (\<lambda>p. \<not> isOffline p) (players r)\<rparr>)"
  from True assms(2) have "r' = resetMatch (setPhase ?r1 LOBBY 0)"
    by (simp add: nextRound_def Let_def onlinePlayers_def)
  moreover have "one_timer (resetMatch (setPhase ?r1 LOBBY 0))"
    by (rule one_timer_reset [OF assms(1)]) simp
  ultimately show ?thesis by simp
next
  case False
  have "\<exists>r7. nextRound rnd r = startWritingPhase (turnShuffle rnd) r7 \<and> timers r7 = timers r"
    unfolding nextRound_def Let_def using False
    apply (simp add: onlinePlayers_def split del: if_split cong: if_cong)
    apply (rule exI, rule conjI, rule refl)
    apply (simp split del: if_split cong: if_cong)
    done
  then obtain r7 where r7: "nextRound rnd r = startWritingPhase (turnShuffle rnd) r7"
      "timers r7 = timers r"
    by blast
  from assms(1) r7(2) have "one_timer r7" by (rule one_timer_cong)
  moreover from assms(2) r7(1) have "startWritingPhase (turnShuffle rnd) r7 = Inr r'" by simp
  ultimately show ?thesis by (rule one_timer_startWritingPhase)
qed

lemma one_timer_startGame:
  assumes "one_timer r" "startGame rnd r = Inr r'"
  shows "one_timer r'"
proof -
  let ?r1 = "r\<lparr>state := (state r)\<lparr>currentRound := 0,
                                     totalRounds := (if rounds r = 0 then 5 else rounds r),
                                     winnerAwardSent := False,
                                     matchArtCache := Some []\<rparr>\<rparr>"
  from assms(1) have inv1: "one_timer ?r1" by (rule one_timer_cong) simp
  show ?thesis
  proof (cases "0 < totalRounds (state ?r1)")
    case True
    with assms(2) have "r' = ?r1\<lparr>pending := pending ?r1 @ [0]\<rparr>"
      by (simp add: startGame_def Let_def split: if_splits)
    moreover from inv1 have "one_timer (?r1\<lparr>pending := pending ?r1 @ [0]\<rparr>)"
      by (rule one_timer_cong) simp
    ultimately show ?thesis by simp
  next
    case False
    with assms(2) have "nextRound rnd ?r1 = Inr r'"
      by (simp add: startGame_def Let_def split: if_splits)
    with inv1 show ?thesis by (rule one_timer_nextRound)
  qed
qed

lemma one_timer_startGame_resume:
  assumes "one_timer r" "startGame_resume k a rnd r = Inr r'"
  shows "one_timer r'"
proof (cases "k \<ge> length (pending r)")
  case True
  with assms show ?thesis by (simp add: startGame_resume_def)
next
  case False
  let ?r1 = "case matchArtCache (state r) of
               None \<Rightarrow> r
             | Some cache \<Rightarrow> r\<lparr>state := (state r)\<lparr>matchArtCache := Some (cache @ [a])\<rparr>\<rparr>"
  have t1: "timers ?r1 = timers r" by (simp split: option.splits)
  show ?thesis
  proof (cases "int (Suc (pending r ! k)) < totalRounds (state ?r1)")
    case True
    with False assms(2) have "r' = ?r1\<lparr>pending := (pending ?r1)[k := Suc (pending r ! k)]\<rparr>"
      by (simp add: startGame_resume_def Let_def)
    moreover from assms(1) have "one_timer (?r1\<lparr>pending := (pending ?r1)[k := Suc (pending r ! k)]\<rparr>)"
      by (rule one_timer_cong) (simp add: t1)
    ultimately show ?thesis by simp
  next
    case more: False
    let ?r2 = "?r1\<lparr>pending := take k (pending ?r1) @ drop (Suc k) (pending ?r1)\<rparr>"
    from more False assms(2) have "nextRound rnd ?r2 = Inr r'"
      by (simp add: startGame_resume_def Let_def)
    moreover from assms(1) have "one_timer ?r2"
      by (rule one_timer_cong) (simp add: t1)
    ultimately show ?thesis by (rule one_timer_nextRound [rotated])
  qed
qed

lemma one_timer_handlePhaseTimeout:
  assumes "one_timer r" "handlePhaseTimeout rnd r = Inr r'"
  shows "one_timer r'"
proof (cases "phase (state r)")
  case LOBBY
  with assms show ?thesis by (auto simp: handlePhaseTimeout_def intro: one_timer_startGame)
next
  case VIEWING
  with assms show ?thesis by (auto simp: handlePhaseTimeout_def)
next
  case WRITING
  with assms show ?thesis by (auto simp: handlePhaseTimeout_def intro: one_timer_advanceTurn)
next
  case DISCUSSING
  with assms show ?thesis by (auto simp: handlePhaseTimeout_def intro: one_timer_setPhase)
next
  case VOTING
  with assms show ?thesis by (auto simp: handlePhaseTimeout_def intro: one_timer_calculateResults)
next
  case RESULTS
  show ?thesis
  proof (cases "int (currentRound (state r)) < rounds r")
    case True
    with RESULTS assms show ?thesis
      by (auto simp: handlePhaseTimeout_def intro: one_timer_nextRound)
  next
    case False
    let ?r1 = "setPhase (awardMatchWinners r) MATCH_END 30"
    from assms(1) have "one_timer (awardMatchWinners r)"
      by (rule one_timer_cong) simp
    then have "one_timer ?r1" by (rule one_timer_setPhase)
    then have "one_timer (?r1\<lparr>players := map (\<lambda>p. p\<lparr>hasSkipped := False\<rparr>) (players ?r1)\<rparr>)"
      by (rule one_timer_cong) simp
    with False RESULTS assms(2) show ?thesis
      by (auto simp: handlePhaseTimeout_def Let_def)
  qed
next
  case MATCH_END
  have "one_timer (resetMatch (setPhase r LOBBY 0))"
    by (rule one_timer_reset [OF assms(1)]) simp
  with MATCH_END assms(2) show ?thesis
    by (auto simp: handlePhaseTimeout_def)
qed

lemma one_timer_tick:
  assumes "one_timer r" "tick h rnd r = Inr r'"
  shows "one_timer r'"
proof (cases "map_of (intervals r) h")
  case None
  with assms show ?thesis by (simp add: tick_def)
next
  case (Some cb)
  let ?r1 = "r\<lparr>state := (state r)\<lparr>timer := timer (state r) - 1\<rparr>\<rparr>"
  from assms(1) have inv1: "one_timer ?r1" by (rule one_timer_cong) simp
  then have cl: "one_timer (clear_timer ?r1)" by (rule one_timer_clear_timer)
  show ?thesis
  proof (cases "timer (state ?r1) \<le> 0")
    case True
    with Some assms(2) cl show ?thesis
      by (cases cb)
         (auto simp: tick_def Let_def intro: one_timer_handlePhaseTimeout one_timer_advanceTurn)
  next
    case False
    from inv1 have "one_timer (emit (TimerUpdate (timer (state ?r1))) ?r1)"
      by (rule one_timer_cong) simp
    with False Some assms(2) show ?thesis
      by (auto simp: tick_def Let_def)
  qed
qed


lemma timers_join_existing: "timers (fst (join_existing sock name r)) = timers r"
  by (simp add: join_existing_def Let_def)

lemma one_timer_then_do:
  assumes "then_do x f = Inr r'" "\<And>y. x = Inr y \<Longrightarrow> one_timer y" "\<And>y. timers (f y) = timers y"
  shows "one_timer r'"
proof (cases x)
  case (Inl e)
  with assms(1) show ?thesis by (simp add: then_do_def)
next
  case (Inr y)
  with assms(1) have "r' = f y" by (simp add: then_do_def)
  moreover from assms(2) [OF Inr] have "one_timer (f y)"
    by (rule one_timer_cong) (rule assms(3))
  ultimately show ?thesis by simp
qed

lemma one_timer_clear_advance:
  assumes "one_timer r" "timers x = timers r" "advanceTurn (clear_timer x) = Inr r'"
  shows "one_timer r'"
proof -
  from assms(1,2) have "one_timer x" by (rule one_timer_cong)
  then have "one_timer (clear_timer x)" by (rule one_timer_clear_timer)
  then show ?thesis using assms(3) by (rule one_timer_advanceTurn)
qed

lemma one_timer_kick_player:
  assumes "one_timer r" "kick_player sock targetId r = Inr r'"
  shows "one_timer r'"
proof (cases "ownerId r \<noteq> sock \<or> targetId = sock
              \<or> List.find (\<lambda>p. pid p = targetId) (players r) = None")
  case True
  with assms show ?thesis by (auto simp: kick_player_def split: if_splits)
next
  case False
  let ?r2 = "(emit (Kicked targetId) r)\<lparr>players := filter (\<lambda>p. pid p \<noteq> targetId) (players r)\<rparr>"
  let ?x = "if phase (state ?r2) = WRITING \<and> currentWriter ?r2 = Some targetId
            then advanceTurn (clear_timer ?r2) else Inr ?r2"
  from False assms(2)
  have run: "then_do ?x (\<lambda>r3. broadcastPublicRooms (broadcastPlayerList r3)) = Inr r'"
    by (auto simp: kick_player_def Let_def)
  have t2: "timers ?r2 = timers r" by simp
  have "one_timer y" if "?x = Inr y" for y
  proof (cases "phase (state ?r2) = WRITING \<and> currentWriter ?r2 = Some targetId")
    case True
    with that have "advanceTurn (clear_timer ?r2) = Inr y" by simp
    with assms(1) t2 show ?thesis by (rule one_timer_clear_advance)
  next
    case False
    with that have "y = ?r2" by auto
    with assms(1) t2 show ?thesis by (simp add: one_timer_def)
  qed
  moreover have "timers (broadcastPublicRooms (broadcastPlayerList y)) = timers y" for y
    by simp
  ultimately show ?thesis
    using run by (intro one_timer_then_do [of ?x "\<lambda>r3. broadcastPublicRooms (broadcastPlayerList r3)" r'])
qed

lemma one_timer_submit_word:
  assumes "one_timer r" "submit_word sock w r = Inr r'"
  shows "one_timer r'"
proof (cases "advanceTurn (r\<lparr>players := update_first (\<lambda>p. pid p = sock)
                                          (\<lambda>p. p\<lparr>word := Some w\<rparr>) (players r)\<rparr>) = Inr r'")
  case True
  moreover from assms(1)
  have "one_timer (r\<lparr>players := update_first (\<lambda>p. pid p = sock)
                                  (\<lambda>p. p\<lparr>word := Some w\<rparr>) (players r)\<rparr>)"
    by (rule one_timer_cong) simp
  ultimately show ?thesis by (rule one_timer_advanceTurn [rotated])
next
  case False
  with assms(2) have "r' = r"
    by (auto simp: submit_word_def split: if_splits option.splits)
  with assms(1) show ?thesis by simp
qed

lemma one_timer_submit_vote:
  assumes "one_timer r" "submit_vote sock targetId r = Inr r'"
  shows "one_timer r'"
proof -
  let ?r1 = "r\<lparr>players := update_first (\<lambda>p. pid p = sock)
                                      (\<lambda>p. p\<lparr>vote := targetId\<rparr>) (players r)\<rparr>"
  from assms(1) have inv1: "one_timer ?r1" by (rule one_timer_cong) simp
  then have "one_timer (calculateResults ?r1)" by (rule one_timer_calculateResults)
  with inv1 assms show ?thesis
    by (auto simp: submit_vote_def Let_def split: if_splits option.splits)
qed

lemma one_timer_skip_discussion:
  assumes "one_timer r" "skip_discussion sock r = Inr r'"
  shows "one_timer r'"
proof -
  let ?r2 = "broadcastPlayerList (r\<lparr>players := update_first (\<lambda>p. pid p = sock)
                                        (\<lambda>p. p\<lparr>hasSkippedDiscussion := True\<rparr>) (players r)\<rparr>)"
  from assms(1) have inv2: "one_timer ?r2" by (rule one_timer_cong) simp
  then have "one_timer (setPhase ?r2 VOTING 30)" by (rule one_timer_setPhase)
  with inv2 assms show ?thesis
    by (auto simp: skip_discussion_def Let_def split: if_splits option.splits)
qed

lemma one_timer_skip_match_end:
  assumes "one_timer r" "skip_match_end sock r = Inr r'"
  shows "one_timer r'"
proof -
  let ?r2 = "broadcastPlayerList (r\<lparr>players := update_first (\<lambda>p. pid p = sock)
                                        (\<lambda>p. p\<lparr>hasSkipped := True\<rparr>) (players r)\<rparr>)"
  from assms(1) have inv2: "one_timer ?r2" by (rule one_timer_cong) simp
  have "one_timer (resetMatch (setPhase ?r2 LOBBY 0))"
    by (rule one_timer_reset [OF assms(1)]) simp
  with inv2 assms show ?thesis
    by (auto simp: skip_match_end_def Let_def split: if_splits option.splits)
qed

lemma one_timer_recheck_ready: "one_timer r \<Longrightarrow> one_timer (recheck_ready r)"
  by (simp add: recheck_ready_def one_timer_setPhase)

lemma one_timer_toggle_ready:
  assumes "one_timer r" "toggle_ready sock r = Inr r'"
  shows "one_timer r'"
proof -
  let ?r1 = "broadcastPlayerList (r\<lparr>players := update_first (\<lambda>p. pid p = sock)
                                   (\<lambda>p. p\<lparr>isReady := \<not> isReady p\<rparr>) (players r)\<rparr>)"
  from assms(1) have "one_timer ?r1" by (rule one_timer_cong) simp
  then have "one_timer (recheck_ready ?r1)" by (rule one_timer_recheck_ready)
  with assms show ?thesis
    by (auto simp: toggle_ready_def Let_def split: if_splits option.splits)
qed

lemma one_timer_admin_skip_phase:
  assumes "one_timer r" "admin_skip_phase password rnd r = Inr r'"
  shows "one_timer r'"
proof (cases "password = admin_password")
  case False
  with assms show ?thesis by (simp add: admin_skip_phase_def)
next
  case True
  from assms(1) have cl: "one_timer (clear_timer r)" by (rule one_timer_clear_timer)
  from True assms(2) have "startGame rnd (clear_timer r) = Inr r'
                           \<or> handlePhaseTimeout rnd (clear_timer r) = Inr r'"
    by (auto simp: admin_skip_phase_def Let_def split: if_splits)
  with cl show ?thesis
    by (auto intro: one_timer_startGame one_timer_handlePhaseTimeout)
qed

lemma one_timer_disconnect_room:
  assumes "one_timer r" "disconnect_room sock r = Inr r'"
  shows "one_timer r'"
proof (cases "phase (state r) = LOBBY")
  case True
  from assms(1) have "one_timer (r\<lparr>players := filter (\<lambda>p. pid p \<noteq> sock) (players r)\<rparr>)"
    by (rule one_timer_cong) simp
  then have "one_timer (recheck_ready (r\<lparr>players := filter (\<lambda>p. pid p \<noteq> sock) (players r)\<rparr>))"
    by (rule one_timer_recheck_ready)
  with True assms(2) show ?thesis by (simp add: disconnect_room_def)
next
  case False
  let ?r1 = "r\<lparr>players := update_first (\<lambda>p. pid p = sock)
                                 (\<lambda>p. p\<lparr>isOffline := True\<rparr>) (players r)\<rparr>"
  have t1: "timers ?r1 = timers r" by simp
  show ?thesis
  proof (cases "phase (state ?r1) = WRITING \<and> currentWriter ?r1 = Some sock")
    case True
    with False assms(2) have "advanceTurn (clear_timer ?r1) = Inr r'"
      by (simp add: disconnect_room_def Let_def)
    with assms(1) t1 show ?thesis by (rule one_timer_clear_advance)
  next
    case stay: False
    with False assms(2) have "r' = ?r1"
      by (auto simp: disconnect_room_def Let_def)
    with assms(1) t1 show ?thesis by (simp add: one_timer_def)
  qed
qed

lemma one_timer_disconnect_in:
  assumes "one_timer r" "disconnect_in sock r = Inr r'"
  shows "one_timer r'"
  using assms(2) unfolding disconnect_in_def
  by (rule one_timer_then_do) (auto intro: one_timer_disconnect_room [OF assms(1)])

lemma one_timer_step:
  assumes "one_timer r" "step ev r = Inr r'"
  shows "one_timer r'"
proof (cases ev)
  case (Join sock name)
  with assms(2) have "r' = fst (join_existing sock name r)" by simp
  moreover from assms(1) have "one_timer (fst (join_existing sock name r))"
    by (rule one_timer_cong) (rule timers_join_existing)
  ultimately show ?thesis by simp
next
  case (KickPlayer sock targetId)
  with assms show ?thesis by (auto intro: one_timer_kick_player)
next
  case (SubmitWord sock w)
  with assms show ?thesis by (auto intro: one_timer_submit_word)
next
  case (SubmitVote sock targetId)
  with assms show ?thesis by (auto intro: one_timer_submit_vote)
next
  case (SkipDiscussion sock)
  with assms show ?thesis by (auto intro: one_timer_skip_discussion)
next
  case (SkipMatchEnd sock)
  with assms show ?thesis by (auto intro: one_timer_skip_match_end)
next
  case (ToggleReady sock)
  with assms show ?thesis by (auto intro: one_timer_toggle_ready)
next
  case (StartGame rnd)
  with assms show ?thesis by (auto intro: one_timer_startGame)
next
  case (AdminSkipPhase password rnd)
  with assms show ?thesis by (auto intro: one_timer_admin_skip_phase)
next
  case (Disconnect sock)
  with assms show ?thesis by (auto intro: one_timer_disconnect_in)
next
  case (Tick h rnd)
  with assms show ?thesis by (auto intro: one_timer_tick)
next
  case (ArtFetched k a rnd)
  with assms show ?thesis by (auto intro: one_timer_startGame_resume)
qed

lemma one_timer_new_room:
  "one_timer (broadcastPublicRooms (broadcastPlayerList (new_room c sock name pub rp)))"
  by (simp add: one_timer_def) (simp add: timers_def new_room_def)

lemma reachable_one_timer: "reachable r \<Longrightarrow> one_timer r"
  by (induction rule: reachable.induct) (auto intro: one_timer_new_room one_timer_step)

lemma run_reachable: "reachable r \<Longrightarrow> run evs r = Inr r' \<Longrightarrow> reachable r'"
proof (induction evs arbitrary: r)
  case Nil
  then show ?case by simp
next
  case (Cons ev evs)
  from Cons.prems(2) obtain r1 where r1: "step ev r = Inr r1" "run evs r1 = Inr r'"
    by (cases "step ev r") auto
  from Cons.prems(1) r1(1) have "reachable r1" by (rule reachable.stepped)
  then show ?case using r1(2) by (rule Cons.IH)
qed

text \<open>
  C3. In every reachable state of a room object at most one interval is scheduled for it,
  and that interval is the one whose handle the room holds in \<open>timerInterval\<close>. Both
  operations that arm a timer cancel what was armed before: after \<open>setPhase\<close> with a
  positive duration, and after any \<open>startTurn\<close> that returns, the only scheduled
  interval is the one just created, under a handle that was not in use. Reachable means
  created by \<open>create_room\<close> and then driven by any sequence of handler calls, interval
  firings and completed art fetches.
\<close>

theorem one_live_timer:
  "reachable r \<Longrightarrow>
     length (intervals r) \<le> 1
     \<and> list_all (\<lambda>e. timerInterval r = Some (fst e) \<and> fst e < nextHandle r) (intervals r)
     \<and> (\<forall>ph d. 0 < d \<longrightarrow> intervals (setPhase r ph d) = [(nextHandle r, PhaseTimer)])
     \<and> (\<forall>r'. startTurn r = Inr r' \<longrightarrow> (\<exists>cb. intervals r' = [(nextHandle r, cb)]))"
proof -
  assume "reachable r"
  then have inv: "one_timer r" by (rule reachable_one_timer)
  then have a: "length (intervals r) \<le> 1
     \<and> list_all (\<lambda>e. timerInterval r = Some (fst e) \<and> fst e < nextHandle r) (intervals r)"
    unfolding one_timer_iff by auto
  have b: "intervals (setPhase r ph d) = [(nextHandle r, PhaseTimer)]" if "0 < d" for ph d
    using timers_setPhase [OF inv, of ph d] that by (simp add: timers_def)
  have c: "\<exists>cb. intervals r' = [(nextHandle r, cb)]" if "startTurn r = Inr r'" for r'
    using timers_startTurn [OF inv that] by (auto simp: timers_def)
  from a b c show ?thesis by blast
qed

lemma sample_runs_return:
  "(case run [Join ''b'' ''Bob'', ToggleReady ''a'', ToggleReady ''b''] created_room of
      Inl e \<Rightarrow> False
    | Inr r \<Rightarrow> intervals r = [(0, PhaseTimer)] \<and> nextHandle r = 1 \<and> timer (state r) = 4)"
  by code_simp

lemma created_room_reachable: "reachable created_room"
  unfolding created_room_def by (rule reachable.created)

lemma countdown_room_reachable: "reachable countdown_room"
proof -
  let ?evs = "[Join ''b'' ''Bob'', ToggleReady ''a'', ToggleReady ''b'']"
  from sample_runs_return obtain r where "run ?evs created_room = Inr r"
    by (cases "run ?evs created_room") auto
  then have "run ?evs created_room = Inr countdown_room"
    by (simp add: countdown_room_def or_else_def)
  with created_room_reachable show ?thesis by (rule run_reachable)
qed

lemma countdown_timer_facts:
  "intervals countdown_room = [(0, PhaseTimer)] \<and> nextHandle countdown_room = 1
   \<and> timerInterval countdown_room = Some 0"
  by code_simp

theorem one_live_timer_witness:
  "reachable countdown_room
   \<and> intervals countdown_room = [(0, PhaseTimer)]
   \<and> timerInterval countdown_room = Some 0
   \<and> intervals (setPhase countdown_room LOBBY 4) = [(1, PhaseTimer)]"
  using one_live_timer [OF countdown_room_reachable] countdown_room_reachable countdown_timer_facts
  by simp

end
